theory Spec2Isabelle
  imports Main "HOL-Library.Sublist" "HOL-Library.Multiset"
begin

text \<open>
  A shallow embedding of the two programs of the repository: \<open>app.py\<close>, which searches
  a people API page by page, filters and enriches the candidates and appends them to a
  CSV table, and \<open>app2.py\<close>, which reads that table, filters and ranks the rows and sends
  one mail per row under a daily quota, logging every attempt in a ledger. Remote
  services, the clock and the file system are inputs of the model; exceptions are values.
  The definitions come first, the properties after them.
\<close>

section \<open>Python strings\<close>

text \<open>
  A Python \<open>str\<close> is modelled as a \<open>string\<close> whose characters are the code points
  below 256. \<open>str.isspace\<close>, \<open>str.lower\<close> and \<open>str.isdigit\<close> are written out for
  exactly these code points.
\<close>

definition py_isspace :: "char \<Rightarrow> bool" where
  "py_isspace c = (of_char c \<in> {9, 10, 11, 12, 13, 28, 29, 30, 31, 32, 133, 160 :: nat})"

definition py_lower_char :: "char \<Rightarrow> char" where
  "py_lower_char c =
     (let n = (of_char c :: nat)
      in if (65 \<le> n \<and> n \<le> 90) \<or> (192 \<le> n \<and> n \<le> 222 \<and> n \<noteq> 215)
         then char_of (n + 32) else c)"

definition py_lower :: "string \<Rightarrow> string" where
  "py_lower s = map py_lower_char s"

definition py_strip :: "string \<Rightarrow> string" where
  "py_strip s = rev (dropWhile py_isspace (rev (dropWhile py_isspace s)))"

text \<open>\<open>kw in t\<close> on two strings: \<open>kw\<close> occurs in \<open>t\<close> as a contiguous run.\<close>

definition py_in :: "string \<Rightarrow> string \<Rightarrow> bool" where
  "py_in kw t = sublist kw t"

text \<open>
  A value read with \<open>dict.get\<close> that is a string when present: \<open>None\<close> stands for a
  missing key or a JSON null. \<open>truthy\<close> is Python's truth value of it and \<open>py_or\<close> is
  \<open>a or b\<close>.
\<close>

fun truthy :: "string option \<Rightarrow> bool" where
  "truthy None = False"
| "truthy (Some s) = (s \<noteq> [])"

definition py_or :: "string option \<Rightarrow> string option \<Rightarrow> string option" where
  "py_or a b = (if truthy a then a else b)"

section \<open>app.py: collecting leads\<close>

subsection \<open>Exclusion keywords and predicates\<close>

definition EXCLUDE_COMPANY_KEYWORDS :: "string list" where
  "EXCLUDE_COMPANY_KEYWORDS =
     [''accenture'', ''deloitte'', ''pwc'', ''kpmg'', ''ernst'', ''ey'', ''capgemini'', ''ibm'',
      ''infosys'', ''tata consultancy'', ''tcs'', ''wipro'', ''cognizant'', ''ntt data'', ''atos'',
      ''cgi'', ''hcl'', ''tech mahindra'', ''sap consulting'', ''bearingpoint'',
      ''mckinsey'', ''bain'', ''bcg'', ''oliver wyman'',
      ''system integrator'', ''systems integrator'', ''si partner'',
      ''recruiting'', ''staffing'', ''headhunt'', ''talent acquisition'']"

definition EXCLUDE_TITLE_KEYWORDS :: "string list" where
  "EXCLUDE_TITLE_KEYWORDS =
     [''recruiter'', ''talent'', ''sales development'', ''sdr'', ''bdr'', ''account executive'',
      ''marketing'', ''growth'', ''partner'', ''principal consultant'', ''consultant'']"

definition normalize_text :: "string option \<Rightarrow> string" where
  "normalize_text s = py_lower (py_strip (case py_or s (Some []) of None \<Rightarrow> [] | Some x \<Rightarrow> x))"

definition is_excluded_company :: "string option \<Rightarrow> bool" where
  "is_excluded_company company_name =
     list_ex (\<lambda>kw. py_in kw (normalize_text company_name)) EXCLUDE_COMPANY_KEYWORDS"

definition is_excluded_title :: "string option \<Rightarrow> bool" where
  "is_excluded_title title =
     list_ex (\<lambda>kw. py_in kw (normalize_text title)) EXCLUDE_TITLE_KEYWORDS"

subsection \<open>Errors\<close>

text \<open>
  Every exception the two programs can end with is a value. \<open>Request_failed\<close> is the
  \<open>RuntimeError\<close> of a hard HTTP failure (it carries the status code and the body the
  message is built from), \<open>Retries_exhausted\<close> the \<open>RuntimeError\<close> raised after the last
  attempt, \<open>Transport_error\<close> an exception of the HTTP client itself (time-out, connection
  failure), \<open>JSON_decode_error\<close> the failure of \<open>r.json()\<close>.
\<close>

datatype error =
    Request_failed int string
  | Retries_exhausted
  | Transport_error
  | JSON_decode_error
  | Attribute_error
  | Value_error
  | Overflow_error
  | Token_error
  | File_not_found

subsection \<open>Candidates of a search page\<close>

text \<open>
  The value under the key \<open>organization\<close> of a search result: the key is missing, it
  holds JSON null, or it holds an object whose \<open>name\<close> is read.
\<close>

datatype organization = Org_absent | Org_null | Org_object "string option"

record candidate =
  c_person_id :: "string option"
  c_id :: "string option"
  c_title :: "string option"
  c_organization_name :: "string option"
  c_company :: "string option"
  c_organization :: organization

definition get_person_id :: "candidate \<Rightarrow> string option" where
  "get_person_id p = py_or (c_person_id p) (c_id p)"

text \<open>
  Line 324 of app.py:
  \<^verbatim>\<open>p.get("organization_name") or p.get("company") or p.get("organization", {}).get("name")\<close>.
  The default \<open>{}\<close> is used only when the key is missing: on a JSON null the method call
  raises \<open>AttributeError\<close>.
\<close>

definition employer_name :: "candidate \<Rightarrow> error + string option" where
  "employer_name p =
     (if truthy (c_organization_name p) then Inr (c_organization_name p)
      else if truthy (c_company p) then Inr (c_company p)
      else case c_organization p of
             Org_absent \<Rightarrow> Inr None
           | Org_null \<Rightarrow> Inl Attribute_error
           | Org_object n \<Rightarrow> Inr n)"

text \<open>
  The body of the loop over one page (lines 317 to 331): \<open>Inr True\<close> when the candidate
  is appended to \<open>kept\<close>, \<open>Inr False\<close> when a \<open>continue\<close> skips it.
\<close>

definition keep_candidate :: "string set \<Rightarrow> candidate \<Rightarrow> error + bool" where
  "keep_candidate existing_ids p =
     (let pid = get_person_id p in
      if \<not> truthy pid then Inr False
      else if the pid \<in> existing_ids then Inr False
      else
        let title = py_or (c_title p) (Some []) in
        case employer_name p of
          Inl e \<Rightarrow> Inl e
        | Inr org_name \<Rightarrow>
            if is_excluded_title title then Inr False
            else if is_excluded_company org_name then Inr False
            else Inr True)"

fun clean_page :: "string set \<Rightarrow> candidate list \<Rightarrow> error + candidate list" where
  "clean_page existing_ids [] = Inr []"
| "clean_page existing_ids (p # ps) =
     (case keep_candidate existing_ids p of
        Inl e \<Rightarrow> Inl e
      | Inr k \<Rightarrow>
          (case clean_page existing_ids ps of
             Inl e \<Rightarrow> Inl e
           | Inr kept \<Rightarrow> Inr (if k then p # kept else kept)))"

subsection \<open>The remote client: \<open>post_with_backoff\<close>\<close>

text \<open>
  What the program reads of an HTTP response: the status code, the body parsed as JSON
  (\<open>None\<close> when \<open>r.json()\<close> raises), the body as text, and the \<open>Retry-After\<close> header
  (\<open>None\<close> when the server sent none). One attempt either yields a response or raises
  inside the HTTP client.
\<close>

record 'a response =
  resp_status :: int
  resp_json :: "'a option"
  resp_text :: string
  resp_retry_after :: "string option"

datatype 'a http_outcome = Response "'a response" | Transport_exception

text \<open>
  The loop \<^verbatim>\<open>for attempt in range(max_retries)\<close> of \<open>post_with_backoff\<close>. The server is a
  function from the number of the attempt to its outcome; the first argument counts
  the attempts that remain; the result carries the list of the \<open>time.sleep\<close> arguments
  in the order of the calls. The delays are the numbers 1, 2, 4, ... of the source
  (floats there, all of them whole).
\<close>

fun backoff_loop ::
  "nat \<Rightarrow> nat \<Rightarrow> (nat \<Rightarrow> 'a http_outcome) \<Rightarrow> nat \<Rightarrow> (error + 'a) \<times> nat list" where
  "backoff_loop 0 attempt server delay = (Inl Retries_exhausted, [])"
| "backoff_loop (Suc k) attempt server delay =
     (case server attempt of
        Transport_exception \<Rightarrow> (Inl Transport_error, [])
      | Response r \<Rightarrow>
          if resp_status r = 200 then
            (case resp_json r of
               None \<Rightarrow> (Inl JSON_decode_error, [])
             | Some v \<Rightarrow> (Inr v, []))
          else if resp_status r \<in> {429, 500, 502, 503, 504} then
            (let (res, sleeps) = backoff_loop k (Suc attempt) server (min (delay * 2) 30)
             in (res, delay # sleeps))
          else (Inl (Request_failed (resp_status r) (resp_text r)), []))"

definition post_with_backoff ::
  "(nat \<Rightarrow> 'a http_outcome) \<Rightarrow> nat \<Rightarrow> (error + 'a) \<times> nat list" where
  "post_with_backoff server max_retries = backoff_loop max_retries 0 server 1"

text \<open>
  The vocabulary of the retry contract: the outcomes after which the loop goes on, the
  result of an attempt after which it does not, and the exponential delays capped at 30.
\<close>

definition retryable :: "'a http_outcome \<Rightarrow> bool" where
  "retryable out =
     (case out of
        Response r \<Rightarrow> resp_status r \<in> {429, 500, 502, 503, 504}
      | Transport_exception \<Rightarrow> False)"

definition final_result :: "'a http_outcome \<Rightarrow> error + 'a" where
  "final_result out =
     (case out of
        Transport_exception \<Rightarrow> Inl Transport_error
      | Response r \<Rightarrow>
          if resp_status r = 200 then
            (case resp_json r of None \<Rightarrow> Inl JSON_decode_error | Some v \<Rightarrow> Inr v)
          else Inl (Request_failed (resp_status r) (resp_text r)))"

definition backoff_delays :: "nat \<Rightarrow> nat list" where
  "backoff_delays k = map (\<lambda>i. min (2 ^ i) 30) [0..<k]"

text \<open>A server for the scenarios: busy once, throttled once with \<open>Retry-After: 30\<close>, then fine.\<close>

definition flaky_server :: "nat \<Rightarrow> unit http_outcome" where
  "flaky_server i =
     (if i = 0 then Response \<lparr>resp_status = 503, resp_json = None, resp_text = ''busy'',
                               resp_retry_after = None\<rparr>
      else if i = 1 then Response \<lparr>resp_status = 429, resp_json = None, resp_text = ''slow down'',
                                    resp_retry_after = Some ''30''\<rparr>
      else Response \<lparr>resp_status = 200, resp_json = Some (), resp_text = ''{}'',
                        resp_retry_after = None\<rparr>)"

subsection \<open>The collection loop of \<open>main\<close>\<close>

text \<open>
  The parsed body of a search response: under each of the three keys, the list found
  there, or \<open>None\<close> when the key is missing or does not hold a list.
\<close>

record search_resp =
  sr_people :: "candidate list option"
  sr_results :: "candidate list option"
  sr_contacts :: "candidate list option"

definition parse_people_from_search :: "search_resp \<Rightarrow> candidate list" where
  "parse_people_from_search resp =
     (case sr_people resp of
        Some l \<Rightarrow> l
      | None \<Rightarrow>
          (case sr_results resp of
             Some l \<Rightarrow> l
           | None \<Rightarrow> (case sr_contacts resp of Some l \<Rightarrow> l | None \<Rightarrow> [])))"

text \<open>
  Lines 299 to 306: the search call of one page, tried again once after any exception.
  The argument gives the server met by the first call (\<open>False\<close>) and by the second
  (\<open>True\<close>).
\<close>

definition search_page :: "(bool \<Rightarrow> nat \<Rightarrow> search_resp http_outcome) \<Rightarrow> error + search_resp" where
  "search_page api =
     (case fst (post_with_backoff (api False) 6) of
        Inr resp \<Rightarrow> Inr resp
      | Inl e \<Rightarrow> fst (post_with_backoff (api True) 6))"

text \<open>
  The loop \<^verbatim>\<open>for page in range(1, args.max_pages + 1)\<close>: \<open>collect existing_ids api page n
  all_people\<close> runs the \<open>n\<close> pages from \<open>page\<close> on. \<open>existing_ids\<close> is not changed by it.
\<close>

fun collect ::
  "string set \<Rightarrow> (nat \<Rightarrow> bool \<Rightarrow> nat \<Rightarrow> search_resp http_outcome) \<Rightarrow> nat \<Rightarrow> nat \<Rightarrow>
     candidate list \<Rightarrow> error + candidate list" where
  "collect existing_ids api page 0 all_people = Inr all_people"
| "collect existing_ids api page (Suc n) all_people =
     (case search_page (api page) of
        Inl e \<Rightarrow> Inl e
      | Inr resp \<Rightarrow>
          (let people = parse_people_from_search resp in
           if people = [] then Inr all_people
           else
             (case clean_page existing_ids people of
                Inl e \<Rightarrow> Inl e
              | Inr kept \<Rightarrow> collect existing_ids api (Suc page) n (all_people @ kept))))"

subsection \<open>Enrichment and the output table\<close>

record org_info =
  o_id :: "string option"
  o_name :: "string option"
  o_primary_domain :: "string option"
  o_website_url :: "string option"
  o_country :: "string option"
  o_city :: "string option"

record match =
  m_id :: "string option"
  m_person_id :: "string option"
  m_first_name :: "string option"
  m_last_name :: "string option"
  m_name :: "string option"
  m_title :: "string option"
  m_linkedin_url :: "string option"
  m_email :: "string option"
  m_email_status :: "string option"
  m_organization_id :: "string option"
  m_organization :: "org_info option"

text \<open>A row of the output table (a LeadRecord), with the columns \<open>main\<close> writes.\<close>

record lead =
  l_person_id :: "string option"
  l_first_name :: "string option"
  l_last_name :: "string option"
  l_name :: "string option"
  l_title :: "string option"
  l_linkedin_url :: "string option"
  l_email :: "string option"
  l_email_status :: "string option"
  l_organization_id :: "string option"
  l_organization_name :: "string option"
  l_organization_domain :: "string option"
  l_organization_website :: "string option"
  l_organization_country :: "string option"
  l_organization_city :: "string option"

definition no_org :: org_info where
  "no_org = \<lparr>o_id = None, o_name = None, o_primary_domain = None, o_website_url = None,
             o_country = None, o_city = None\<rparr>"

definition row_of_match :: "match \<Rightarrow> lead" where
  "row_of_match m =
     (let org = (case m_organization m of None \<Rightarrow> no_org | Some org \<Rightarrow> org) in
      \<lparr>l_person_id = py_or (m_id m) (m_person_id m),
       l_first_name = m_first_name m,
       l_last_name = m_last_name m,
       l_name = m_name m,
       l_title = m_title m,
       l_linkedin_url = m_linkedin_url m,
       l_email = m_email m,
       l_email_status = m_email_status m,
       l_organization_id = py_or (m_organization_id m) (o_id org),
       l_organization_name = o_name org,
       l_organization_domain = py_or (o_primary_domain org) (o_website_url org),
       l_organization_website = o_website_url org,
       l_organization_country = o_country org,
       l_organization_city = o_city org\<rparr>)"

definition load_existing_person_ids :: "lead list \<Rightarrow> string set" where
  "load_existing_person_ids table = set (map the (filter truthy (map l_person_id table)))"

fun chunked :: "'a list \<Rightarrow> nat \<Rightarrow> 'a list list" where
  "chunked lst n =
     (if lst = [] \<or> n = 0 then [] else take n lst # chunked (drop n lst) n)"

text \<open>
  The body of the loop over the batches (lines 348 to 404) for one batch: the identities
  asked for, the enrichment call (an exception of it ends \<open>main\<close>), the rows that pass
  the second exclusion, the append to the table and the update of \<open>existing_ids\<close>. The
  enrichment server is a function of the number of the batch and of the identities sent.
\<close>

definition batch_details :: "candidate list \<Rightarrow> string list" where
  "batch_details batch = map (\<lambda>p. the (get_person_id p)) (filter (\<lambda>p. truthy (get_person_id p)) batch)"

definition rows_of_matches :: "match list \<Rightarrow> lead list" where
  "rows_of_matches matches =
     filter (\<lambda>row. \<not> is_excluded_company (l_organization_name row) \<and> \<not> is_excluded_title (l_title row))
       (map row_of_match matches)"

fun enrich_loop ::
  "(nat \<Rightarrow> string list \<Rightarrow> nat \<Rightarrow> match list option http_outcome) \<Rightarrow> nat \<Rightarrow> candidate list list \<Rightarrow>
     lead list \<Rightarrow> string set \<Rightarrow> error option \<times> lead list \<times> string set" where
  "enrich_loop enrich i [] table existing_ids = (None, table, existing_ids)"
| "enrich_loop enrich i (batch # batches) table existing_ids =
     (case fst (post_with_backoff (enrich i (batch_details batch)) 6) of
        Inl e \<Rightarrow> (Some e, table, existing_ids)
      | Inr enrich_resp \<Rightarrow>
          (let matches = (case enrich_resp of None \<Rightarrow> [] | Some ms \<Rightarrow> ms);
               rows_to_write = rows_of_matches matches
           in enrich_loop enrich (Suc i) batches (table @ rows_to_write)
                (existing_ids \<union> load_existing_person_ids rows_to_write)))"

record args =
  max_pages :: nat
  dry_run :: bool

text \<open>
  \<open>main\<close> of app.py from line 290 on: the output table before the run, the arguments and
  the two remote services in; the exception that ended the run (if any) and the output
  table after it out.
\<close>

definition main_collect ::
  "lead list \<Rightarrow> args \<Rightarrow> (nat \<Rightarrow> bool \<Rightarrow> nat \<Rightarrow> search_resp http_outcome) \<Rightarrow>
     (nat \<Rightarrow> string list \<Rightarrow> nat \<Rightarrow> match list option http_outcome) \<Rightarrow> error option \<times> lead list" where
  "main_collect table args api enrich =
     (let existing_ids = load_existing_person_ids table in
      case collect existing_ids api 1 (max_pages args) [] of
        Inl e \<Rightarrow> (Some e, table)
      | Inr all_people \<Rightarrow>
          if dry_run args then (None, table)
          else
            (let (err, table', ids) = enrich_loop enrich 1 (chunked all_people 10) table existing_ids
             in (err, table')))"

subsection \<open>Scenarios of the collection loop\<close>

text \<open>
  A search result whose \<open>organization\<close> is JSON null, with a title that
  \<open>is_excluded_title\<close> rejects, and a search service that returns it on page 1.
\<close>

definition null_org_candidate :: candidate where
  "null_org_candidate =
     \<lparr>c_person_id = None, c_id = Some ''p1'', c_title = Some ''Consultant'',
      c_organization_name = None, c_company = None, c_organization = Org_null\<rparr>"

definition absent_employer_candidate :: candidate where
  "absent_employer_candidate =
     \<lparr>c_person_id = None, c_id = Some ''p2'', c_title = None,
      c_organization_name = None, c_company = None, c_organization = Org_null\<rparr>"

definition ok_response :: "'a \<Rightarrow> 'a http_outcome" where
  "ok_response v =
     Response \<lparr>resp_status = 200, resp_json = Some v, resp_text = [], resp_retry_after = None\<rparr>"

definition people_page :: "candidate list \<Rightarrow> search_resp http_outcome" where
  "people_page ps = ok_response \<lparr>sr_people = Some ps, sr_results = None, sr_contacts = None\<rparr>"

definition null_org_api :: "nat \<Rightarrow> bool \<Rightarrow> nat \<Rightarrow> search_resp http_outcome" where
  "null_org_api page again attempt = people_page (if page = 1 then [null_org_candidate] else [])"

definition absent_employer_api :: "nat \<Rightarrow> bool \<Rightarrow> nat \<Rightarrow> search_resp http_outcome" where
  "absent_employer_api page again attempt =
     people_page (if page = 1 then [absent_employer_candidate] else [])"

definition mk_candidate :: "string \<Rightarrow> string \<Rightarrow> candidate" where
  "mk_candidate pid title =
     \<lparr>c_person_id = None, c_id = Some pid, c_title = Some title,
      c_organization_name = None, c_company = None,
      c_organization = Org_object (Some ''Acme'')\<rparr>"

definition scenario_page :: "candidate list" where
  "scenario_page =
     map (\<lambda>pid. mk_candidate pid ''Consultant'') [''t1'', ''t2'', ''t3''] @
     map (\<lambda>pid. mk_candidate pid ''CIO'')
       [''s1'', ''s2'', ''k1'', ''k2'', ''k3'', ''k4'', ''k5'', ''k6'', ''k7'']"

definition scenario_api :: "nat \<Rightarrow> bool \<Rightarrow> nat \<Rightarrow> search_resp http_outcome" where
  "scenario_api page again attempt = people_page (if page = 1 then scenario_page else [])"

definition mk_match :: "string \<Rightarrow> match" where
  "mk_match pid =
     \<lparr>m_id = Some pid, m_person_id = None, m_first_name = Some ''Ada'', m_last_name = None,
      m_name = None, m_title = Some ''CIO'', m_linkedin_url = None,
      m_email = Some ''ada@acme.example'', m_email_status = Some ''verified'',
      m_organization_id = None, m_organization = Some (no_org\<lparr>o_name := Some ''Acme''\<rparr>)\<rparr>"

definition echo_enrich :: "nat \<Rightarrow> string list \<Rightarrow> nat \<Rightarrow> match list option http_outcome" where
  "echo_enrich i details attempt =
     ok_response (Some (map mk_match (filter (\<lambda>pid. pid \<noteq> []) details)))"

definition repeat_api :: "nat \<Rightarrow> bool \<Rightarrow> nat \<Rightarrow> search_resp http_outcome" where
  "repeat_api page again attempt =
     people_page
       (if page = 1 then
          map (\<lambda>pid. mk_candidate pid ''CIO'')
            [''a0'', ''a1'', ''a2'', ''a3'', ''a4'', ''a5'', ''a6'', ''a7'', ''a8'', ''a9'']
        else if page = 2 then [mk_candidate ''a0'' ''CIO'']
        else [])"

text \<open>
  An enrichment service returns only people it was asked for: every match of a response
  carries one of the identities sent in the request.
\<close>

definition echoes :: "(nat \<Rightarrow> string list \<Rightarrow> nat \<Rightarrow> match list option http_outcome) \<Rightarrow> bool" where
  "echoes enrich =
     (\<forall>i details attempt r ms m.
        enrich i details attempt = Response r \<longrightarrow> resp_json r = Some (Some ms) \<longrightarrow> m \<in> set ms \<longrightarrow>
        (\<exists>pid \<in> set details. py_or (m_id m) (m_person_id m) = Some pid))"

definition seen_table :: "lead list" where
  "seen_table = [row_of_match (mk_match ''a0'')]"

section \<open>app2.py: sending mail\<close>

subsection \<open>The ledger\<close>

text \<open>
  The clock counts the seconds that have elapsed, the time that \<open>time.sleep\<close> lets pass.
  \<open>date.today()\<close> is the date of the local calendar at that instant: the calendar \<open>cal\<close>
  gives, for every instant, the number of the local day it falls in. Local days need not
  be 86400 seconds long: where the clocks are set back at the end of summer time, that day
  has 90000 seconds. The string \<open>str(date.today())\<close> stored in the table is modelled by
  the number of the day.
\<close>

type_synonym calendar = "nat \<Rightarrow> nat"

definition today :: "calendar \<Rightarrow> nat \<Rightarrow> nat" where
  "today cal clock = cal clock"

text \<open>
  Two calendars: one in which every day has 86400 seconds, and one whose first day has
  25 hours, as on the day summer time ends.
\<close>

definition plain_days :: calendar where
  "plain_days t = t div 86400"

definition autumn_calendar :: calendar where
  "autumn_calendar t = (if t < 90000 then 0 else Suc ((t - 90000) div 86400))"

text \<open>
  The outcome stored in the column \<open>status\<close>: \<^verbatim>\<open>"sent"\<close>, \<^verbatim>\<open>f"error:{code}:{detail}"\<close> or
  \<^verbatim>\<open>f"exception:{e}"\<close>.
\<close>

datatype status = Sent | Failed int string | Raised error

record entry =
  send_date :: nat
  sent_at :: nat
  e_email :: string
  e_person_id :: string
  e_company :: string
  e_subject :: string
  e_status :: status

text \<open>
  The table \<open>sent\<close> is the list of its rows in the order of insertion (the position is
  the \<open>id\<close>). \<open>init_db\<close> puts a unique index on \<open>(email, send_date)\<close>, and \<open>mark_sent\<close> is
  \<^verbatim>\<open>INSERT OR IGNORE\<close>: the row is dropped when the index already holds its key.
\<close>

definition mark_sent ::
  "calendar \<Rightarrow> entry list \<Rightarrow> nat \<Rightarrow> string \<Rightarrow> string \<Rightarrow> string \<Rightarrow> string \<Rightarrow> status
     \<Rightarrow> entry list" where
  "mark_sent cal con clock email person_id company subject st =
     (if list_ex (\<lambda>e. e_email e = email \<and> send_date e = today cal clock) con then con
      else con @ [\<lparr>send_date = today cal clock, sent_at = clock, e_email = email,
                   e_person_id = person_id, e_company = company, e_subject = subject,
                   e_status = st\<rparr>])"

definition sent_count_today :: "calendar \<Rightarrow> entry list \<Rightarrow> nat \<Rightarrow> int" where
  "sent_count_today cal con clock =
     int (length (filter (\<lambda>e. send_date e = today cal clock) con))"

definition already_sent_today :: "calendar \<Rightarrow> entry list \<Rightarrow> nat \<Rightarrow> string \<Rightarrow> bool" where
  "already_sent_today cal con clock email =
     list_ex (\<lambda>e. send_date e = today cal clock \<and> e_email e = email) con"

definition company_count_today :: "calendar \<Rightarrow> entry list \<Rightarrow> nat \<Rightarrow> string \<Rightarrow> int" where
  "company_count_today cal con clock company =
     int (length (filter (\<lambda>e. send_date e = today cal clock \<and> e_company e = company) con))"

definition customer_count_today :: "calendar \<Rightarrow> entry list \<Rightarrow> nat \<Rightarrow> string \<Rightarrow> int" where
  "customer_count_today cal con clock company =
     int (length (filter (\<lambda>e. send_date e = today cal clock \<and> e_email e = company) con))"

text \<open>The uniqueness invariant of the ledger: no two rows share \<open>(email, send_date)\<close>.\<close>

definition ledger_key :: "entry \<Rightarrow> string \<times> nat" where
  "ledger_key e = (e_email e, send_date e)"

definition unique_keys :: "entry list \<Rightarrow> bool" where
  "unique_keys con = distinct (map ledger_key con)"

definition ledger_after_two_inserts :: "entry list" where
  "ledger_after_two_inserts =
     mark_sent plain_days (mark_sent plain_days [] 100 ''a@b.co'' ''p1'' ''Acme'' ''hello'' Sent)
       200 ''a@b.co'' ''p1'' ''Acme'' ''hello again'' (Failed 500 ''oops'')"

subsection \<open>The pre-filter\<close>

definition ALLOWED_EMAIL_STATUS :: "string set" where
  "ALLOWED_EMAIL_STATUS = {''verified'', ''likely to engage''}"

definition MAX_PER_COMPANY_PER_DAY :: int where
  "MAX_PER_COMPANY_PER_DAY = 2"

definition SLEEP_BETWEEN_SENDS_SEC :: nat where
  "SLEEP_BETWEEN_SENDS_SEC = 180"

text \<open>
  The regular expression \<^verbatim>\<open>^[^@\s]+@[^@\s]+\.[^@\s]+$\<close> under \<open>re.match\<close>. \<open>email_char\<close> is
  the class \<^verbatim>\<open>[^@\s]\<close>. After the longest run of such characters an \<^verbatim>\<open>@\<close> must
  follow, then a run of them that holds a dot with at least one character on each side.
  \<^verbatim>\<open>$\<close> matches at the end of the string and also before a line feed that ends it.
\<close>

definition email_char :: "char \<Rightarrow> bool" where
  "email_char c = (c \<noteq> CHR ''@'' \<and> \<not> py_isspace c)"

definition domain_shape :: "string \<Rightarrow> bool" where
  "domain_shape d = (list_all email_char d \<and> CHR ''.'' \<in> set (butlast (tl d)))"

definition full_email :: "string \<Rightarrow> bool" where
  "full_email s =
     (takeWhile email_char s \<noteq> [] \<and>
      (case dropWhile email_char s of
         [] \<Rightarrow> False
       | c # d \<Rightarrow> c = CHR ''@'' \<and> domain_shape d))"

definition re_match_email :: "string \<Rightarrow> bool" where
  "re_match_email s =
     (full_email s \<or> (s \<noteq> [] \<and> last s = CHR 0x0A \<and> full_email (butlast s)))"

definition is_valid_email :: "string \<Rightarrow> bool" where
  "is_valid_email e = (CHR ''@'' \<in> set e \<and> re_match_email (py_strip e))"

text \<open>
  A cell of the data frame read from the CSV file: a text, or \<open>NaN\<close> for an empty cell.
  \<open>py_str\<close> is \<open>str\<close> (and \<open>astype(str)\<close>) on a cell.
\<close>

datatype cell = NaN | Str string

fun py_str :: "cell \<Rightarrow> string" where
  "py_str NaN = ''nan''"
| "py_str (Str s) = s"

record csv_row =
  csv_email :: cell
  csv_email_status :: cell
  csv_title :: cell
  csv_organization_name :: cell
  csv_first_name :: cell
  csv_person_id :: cell

text \<open>
  A row after lines 265 and 266: the column \<open>email\<close> is a stripped string and
  \<open>email_status_norm\<close> is there; the other columns are as read.
\<close>

record row =
  r_email :: string
  r_email_status_norm :: string
  r_title :: cell
  r_organization_name :: cell
  r_first_name :: cell
  r_person_id :: cell

definition normalize_row :: "csv_row \<Rightarrow> row" where
  "normalize_row c =
     \<lparr>r_email = py_strip (py_str (csv_email c)),
      r_email_status_norm = py_strip (py_lower (py_str (csv_email_status c))),
      r_title = csv_title c,
      r_organization_name = csv_organization_name c,
      r_first_name = csv_first_name c,
      r_person_id = csv_person_id c\<rparr>"

text \<open>Lines 265 to 269: the three filters, in the order of the source.\<close>

definition prefilter :: "string set \<Rightarrow> csv_row list \<Rightarrow> row list" where
  "prefilter do_not_email df =
     filter (\<lambda>r. py_lower (r_email r) \<notin> do_not_email)
       (filter (\<lambda>r. r_email_status_norm r \<in> ALLOWED_EMAIL_STATUS)
          (filter (\<lambda>r. is_valid_email (r_email r)) (map normalize_row df)))"

subsection \<open>Ranking\<close>

definition seniority_table :: "(string \<times> int) list" where
  "seniority_table =
     [(''chief'', 5), (''cdo'', 5), (''cio'', 5), (''vp'', 4), (''director'', 3), (''head'', 3),
      (''manager'', 2), (''lead'', 2)]"

fun first_score :: "string \<Rightarrow> (string \<times> int) list \<Rightarrow> int" where
  "first_score t [] = 1"
| "first_score t ((kw, score) # rest) = (if py_in kw t then score else first_score t rest)"

definition seniority_score :: "cell \<Rightarrow> int" where
  "seniority_score title = first_score (py_lower (py_str title)) seniority_table"

text \<open>
  The column \<open>seniority_score\<close> of a row is a function of its title, so it is computed
  where it is read. \<^verbatim>\<open>df.sort_values(by=["seniority_score"], ascending=False)\<close> is a call
  into pandas with the default \<open>kind\<close> (\<open>quicksort\<close>). It is a parameter of the model, and
  \<open>sorts_descending\<close> is what is known of it: the result is a rearrangement of the rows
  with the scores in descending order. The order of rows with equal scores is left to
  the sort.
\<close>

definition row_score :: "row \<Rightarrow> int" where
  "row_score r = seniority_score (r_title r)"

definition sorts_descending :: "(row list \<Rightarrow> row list) \<Rightarrow> bool" where
  "sorts_descending sort_values =
     (\<forall>rows. mset (sort_values rows) = mset rows \<and>
        sorted_wrt (\<lambda>a b. row_score b \<le> row_score a) (sort_values rows))"

definition ranked :: "(row list \<Rightarrow> row list) \<Rightarrow> string set \<Rightarrow> csv_row list \<Rightarrow> row list" where
  "ranked sort_values do_not_email df = sort_values (prefilter do_not_email df)"

subsection \<open>The dispatch loop\<close>

text \<open>
  What one pass of the loop meets outside the program: the seconds that go by before
  the quota is read, between that and the company check, and while the message is
  built and sent; whether the logo file can be read; the answers of the mail API to the
  first post, to the post after a token refresh and to the post after a throttling
  pause; and whether the token refresh succeeds.
\<close>

record send_env =
  tick_quota :: nat
  tick_cap :: nat
  tick_send :: nat
  logo_readable :: bool
  post_first :: "unit http_outcome"
  token_refresh :: bool
  post_refreshed :: "unit http_outcome"
  post_retry :: "unit http_outcome"

datatype action = Sleep nat | Post string | Refresh_token

record state =
  ledger :: "entry list"
  now :: nat
  sent_now :: nat

text \<open>
  \<open>build_message\<close>: \<^verbatim>\<open>(row.get("first_name") or "").strip()\<close> raises on an empty cell (the
  float \<open>nan\<close> is true and has no \<open>strip\<close>), likewise for \<open>organization_name\<close>; then the
  logo file is read. The result is the subject, the only part of the payload that is
  read again.
\<close>

definition build_message :: "send_env \<Rightarrow> row \<Rightarrow> error + string" where
  "build_message env r =
     (case r_first_name r of
        NaN \<Rightarrow> Inl Attribute_error
      | Str first \<Rightarrow>
          (case r_organization_name r of
             NaN \<Rightarrow> Inl Attribute_error
           | Str company \<Rightarrow>
               if \<not> logo_readable env then Inl File_not_found
               else Inr (''AVC at '' @ py_strip company @
                         '' re: master data governance for SAP S/4HANA programs'')))"

text \<open>
  Line 322: \<^verbatim>\<open>int(retry_after) if retry_after and retry_after.isdigit() else 10\<close>.
  \<open>isdigit\<close> also holds of the superscripts 1, 2 and 3, on which \<open>int\<close> raises
  \<open>ValueError\<close>; so it does on a string of more than 4300 digits (the default limit of the
  conversion between \<open>str\<close> and \<open>int\<close>, \<open>sys.int_info.default_max_str_digits\<close>, since
  Python 3.11). \<open>time.sleep\<close> converts the seconds to nanoseconds in a signed 64-bit
  integer and raises \<open>OverflowError\<close> when they do not fit: 9223372036 seconds is the
  longest sleep it accepts.
\<close>

definition INT_MAX_STR_DIGITS :: nat where
  "INT_MAX_STR_DIGITS = 4300"

definition SLEEP_MAX_SEC :: nat where
  "SLEEP_MAX_SEC = 9223372036"

definition py_isdigit :: "char \<Rightarrow> bool" where
  "py_isdigit c = ((48 \<le> (of_char c :: nat) \<and> (of_char c :: nat) \<le> 57) \<or>
                   of_char c \<in> {178, 179, 185 :: nat})"

definition ascii_digit :: "char \<Rightarrow> bool" where
  "ascii_digit c = (48 \<le> (of_char c :: nat) \<and> (of_char c :: nat) \<le> 57)"

definition py_int :: "string \<Rightarrow> nat" where
  "py_int s = foldl (\<lambda>n c. 10 * n + (of_char c - 48)) 0 s"

definition throttle_pause :: "string option \<Rightarrow> error + nat" where
  "throttle_pause retry_after =
     (case retry_after of
        None \<Rightarrow> Inr 10
      | Some h \<Rightarrow>
          if h \<noteq> [] \<and> list_all py_isdigit h then
            (if list_all ascii_digit h \<and> length h \<le> INT_MAX_STR_DIGITS then Inr (py_int h)
             else Inl Value_error)
          else Inr 10)"

definition accepted :: "int \<Rightarrow> bool" where
  "accepted code = (code = 202 \<or> code = 200)"

text \<open>
  Lines 315 to 335, on the response \<open>resp\<close> that is left after the 401 handling: the
  status to log, the actions taken so far with those of this part appended, and the
  seconds slept in it. An exception raised by \<open>int\<close> or by \<open>time.sleep\<close> is caught by the
  \<open>except\<close> clause of line 337: nothing is slept and nothing is posted again.
\<close>

definition settle :: "send_env \<Rightarrow> string \<Rightarrow> unit response \<Rightarrow> action list \<Rightarrow> status \<times> action list \<times> nat" where
  "settle env email resp acts =
     (if accepted (resp_status resp) then (Sent, acts, 0)
      else if resp_status resp = 429 then
        (case throttle_pause (resp_retry_after resp) of
           Inl e \<Rightarrow> (Raised e, acts, 0)
         | Inr sleep_s \<Rightarrow>
             if SLEEP_MAX_SEC < sleep_s then (Raised Overflow_error, acts, 0)
             else
               (case post_retry env of
                  Transport_exception \<Rightarrow>
                    (Raised Transport_error, acts @ [Sleep sleep_s, Post email], sleep_s)
                | Response resp2 \<Rightarrow>
                    if accepted (resp_status resp2) then
                      (Sent, acts @ [Sleep sleep_s, Post email], sleep_s)
                    else
                      (Failed (resp_status resp2) (take 200 (resp_text resp2)),
                       acts @ [Sleep sleep_s, Post email], sleep_s)))
      else (Failed (resp_status resp) (take 200 (resp_text resp)), acts, 0))"

text \<open>The \<open>try\<close> block (lines 305 to 339) up to the status that \<open>mark_sent\<close> is given.\<close>

definition attempt_send :: "send_env \<Rightarrow> string \<Rightarrow> status \<times> action list \<times> nat" where
  "attempt_send env email =
     (case post_first env of
        Transport_exception \<Rightarrow> (Raised Transport_error, [Post email], 0)
      | Response resp \<Rightarrow>
          if resp_status resp = 401 then
            (if \<not> token_refresh env then (Raised Token_error, [Post email, Refresh_token], 0)
             else
               (case post_refreshed env of
                  Transport_exception \<Rightarrow>
                    (Raised Transport_error, [Post email, Refresh_token, Post email], 0)
                | Response resp' \<Rightarrow> settle env email resp' [Post email, Refresh_token, Post email]))
          else settle env email resp [Post email])"

text \<open>
  One pass of the loop over the ranked rows (lines 289 to 341). The first component of
  the result is the exception that ends the run, if one does.
\<close>

definition dispatch_one ::
  "calendar \<Rightarrow> int \<Rightarrow> send_env \<Rightarrow> row \<Rightarrow> state \<Rightarrow> error option \<times> state \<times> action list" where
  "dispatch_one cal daily_limit env r s =
     (let t1 = now s + tick_quota env;
          over = (daily_limit \<le> sent_count_today cal (ledger s) t1);
          t1' = (if over then t1 + 86500 else t1);
          acts0 = (if over then [Sleep 86500] else []);
          t2 = t1' + tick_cap env;
          company = py_strip (py_str (r_organization_name r))
      in
        if company \<noteq> [] \<and> MAX_PER_COMPANY_PER_DAY \<le> customer_count_today cal (ledger s) t2 company
        then (None, s\<lparr>now := t2\<rparr>, acts0)
        else
          (case build_message env r of
             Inl e \<Rightarrow> (Some e, s\<lparr>now := t2\<rparr>, acts0)
           | Inr subject \<Rightarrow>
               (let email = r_email r;
                    person_id = py_strip (py_str (r_person_id r));
                    (st, acts, slept) = attempt_send env email;
                    t3 = t2 + tick_send env + slept
                in (None,
                    \<lparr>ledger = mark_sent cal (ledger s) t3 email person_id company subject st,
                     now = t3 + SLEEP_BETWEEN_SENDS_SEC,
                     sent_now = (if st = Sent then sent_now s + 1 else sent_now s)\<rparr>,
                    acts0 @ acts @ [Sleep SLEEP_BETWEEN_SENDS_SEC]))))"

fun dispatch_loop ::
  "calendar \<Rightarrow> int \<Rightarrow> (nat \<Rightarrow> send_env) \<Rightarrow> nat \<Rightarrow> row list \<Rightarrow> state
     \<Rightarrow> error option \<times> state \<times> action list" where
  "dispatch_loop cal daily_limit envs i [] s = (None, s, [])"
| "dispatch_loop cal daily_limit envs i (r # rs) s =
     (case dispatch_one cal daily_limit (envs i) r s of
        (Some e, s', acts) \<Rightarrow> (Some e, s', acts)
      | (None, s', acts) \<Rightarrow>
          (let (res, s'', acts') = dispatch_loop cal daily_limit envs (Suc i) rs s'
           in (res, s'', acts @ acts')))"

text \<open>
  What a run of \<open>main\<close> is given: the local calendar, the daily limit, the do-not-email
  set, the data frame read from the CSV file, the sort of pandas, whether the first token
  is obtained, and what each pass of the loop meets. The run starts after the check of the environment
  variables and the opening of the database; the notification sent after the loop is
  not part of the model.
\<close>

record run =
  calendar :: calendar
  daily_limit :: int
  do_not_email :: "string set"
  df :: "csv_row list"
  sort_values :: "row list \<Rightarrow> row list"
  token_ok :: bool
  envs :: "nat \<Rightarrow> send_env"

definition main_dispatch :: "run \<Rightarrow> state \<Rightarrow> error option \<times> state \<times> action list" where
  "main_dispatch run s =
     (if daily_limit run \<le> sent_count_today (calendar run) (ledger s) (now s) then (None, s, [])
      else
        (let rows = ranked (sort_values run) (do_not_email run) (df run) in
         if \<not> token_ok run then (Some Token_error, s, [])
         else dispatch_loop (calendar run) (daily_limit run) (envs run) 0 rows s))"

subsection \<open>Scenarios of the ranking\<close>

text \<open>
  A sort that meets \<open>sorts_descending\<close>, and a row of the CSV file with a verified
  address.
\<close>

definition reversing_sort :: "row list \<Rightarrow> row list" where
  "reversing_sort rows = rev (sort_key row_score rows)"

definition lead_row :: "string \<Rightarrow> string \<Rightarrow> string \<Rightarrow> csv_row" where
  "lead_row email title company =
     \<lparr>csv_email = Str email, csv_email_status = Str ''verified'', csv_title = Str title,
      csv_organization_name = Str company, csv_first_name = Str ''Ada'',
      csv_person_id = Str ''p''\<rparr>"

subsection \<open>Scenarios of the dispatch loop\<close>

text \<open>
  \<open>load_do_not_email\<close> on the lines of the file (no file: no lines). A pass of the loop
  in which nothing goes wrong, a fresh state, and a run over four rows of which one has
  a malformed address, one a status that is not allowed and one an address on the
  do-not-email list in another case.
\<close>

definition load_do_not_email :: "string list \<Rightarrow> string set" where
  "load_do_not_email lines =
     set (map (\<lambda>line. py_lower (py_strip line)) (filter (\<lambda>line. py_strip line \<noteq> []) lines))"

definition mail_response :: "int \<Rightarrow> string \<Rightarrow> string option \<Rightarrow> unit http_outcome" where
  "mail_response code body retry_after =
     Response \<lparr>resp_status = code, resp_json = None, resp_text = body,
               resp_retry_after = retry_after\<rparr>"

definition calm_env :: send_env where
  "calm_env =
     \<lparr>tick_quota = 1, tick_cap = 0, tick_send = 2, logo_readable = True,
      post_first = mail_response 202 [] None, token_refresh = True,
      post_refreshed = mail_response 202 [] None, post_retry = mail_response 202 [] None\<rparr>"

definition fresh_state :: state where
  "fresh_state = \<lparr>ledger = [], now = 1000, sent_now = 0\<rparr>"

definition filter_run :: run where
  "filter_run =
     \<lparr>calendar = plain_days,
      daily_limit = 50,
      do_not_email = load_do_not_email [''Blocked@Acme.io ''],
      df = [lead_row ''not-an-email'' ''CIO'' ''Acme'',
            lead_row ''BLOCKED@acme.io'' ''CIO'' ''Acme'',
            (lead_row ''new@acme.io'' ''CIO'' ''Acme'')\<lparr>csv_email_status := Str ''unverified''\<rparr>,
            lead_row ''ok@acme.io'' ''CIO'' ''Acme''],
      sort_values = reversing_sort,
      token_ok = True,
      envs = (\<lambda>i. calm_env)\<rparr>"

subsection \<open>The daily quota\<close>

text \<open>
  The number of ledger entries of a day with the outcome \<open>sent\<close>, as an \<open>int\<close> like the
  counts of the source.
\<close>

definition sent_on :: "entry list \<Rightarrow> nat \<Rightarrow> int" where
  "sent_on con d = int (length (filter (\<lambda>e. send_date e = d \<and> e_status e = Sent) con))"

text \<open>
  Runs in which nothing goes wrong, over given rows with a given daily limit; a ledger
  entry of a successful send; a state whose ledger holds five \<open>sent\<close> entries of today.
\<close>

definition quota_run :: "int \<Rightarrow> csv_row list \<Rightarrow> run" where
  "quota_run lim rows =
     \<lparr>calendar = plain_days, daily_limit = lim, do_not_email = {}, df = rows,
      sort_values = reversing_sort, token_ok = True, envs = (\<lambda>i. calm_env)\<rparr>"

definition sent_entry :: "nat \<Rightarrow> nat \<Rightarrow> string \<Rightarrow> string \<Rightarrow> entry" where
  "sent_entry day at email company =
     \<lparr>send_date = day, sent_at = at, e_email = email, e_person_id = ''p'', e_company = company,
      e_subject = ''AVC at '' @ company @ '' re: master data governance for SAP S/4HANA programs'',
      e_status = Sent\<rparr>"

definition five_sent_state :: state where
  "five_sent_state =
     \<lparr>ledger = map (\<lambda>email. sent_entry 0 500 email ''Acme'')
                 [''a1@x.io'', ''a2@x.io'', ''a3@x.io'', ''a4@x.io'', ''a5@x.io''],
      now = 1000, sent_now = 0\<rparr>"

definition two_rows :: "csv_row list" where
  "two_rows = [lead_row ''a@x.io'' ''CIO'' ''Acme'', lead_row ''b@y.io'' ''IT Manager'' ''Bolt'']"

text \<open>
  A calendar on which the quota check is sound: the days follow one another, and none is
  longer than the 86500 seconds the loop sleeps. And the run of two rows with a quota of
  one on the calendar whose first day has 25 hours.
\<close>

definition short_days :: "calendar \<Rightarrow> bool" where
  "short_days cal = ((\<forall>a b. a \<le> b \<longrightarrow> cal a \<le> cal b) \<and> (\<forall>t. cal t < cal (t + 86500)))"

definition autumn_run :: run where
  "autumn_run = (quota_run 1 two_rows)\<lparr>calendar := autumn_calendar\<rparr>"

subsection \<open>Scenarios of the company cap and of throttling\<close>

text \<open>
  Three leads of one company; a pass of the loop in which the mail API throttles the
  first post with \<open>Retry-After: 30\<close> and answers the retry with a 500 and a body of 250
  characters; and a state whose ledger already holds today's entry of the recipient.
\<close>

definition acme_rows :: "csv_row list" where
  "acme_rows = [lead_row ''a1@acme.io'' ''CIO'' ''Acme'', lead_row ''a2@acme.io'' ''CIO'' ''Acme'',
                lead_row ''a3@acme.io'' ''CIO'' ''Acme'']"



section \<open>Properties\<close>

subsection \<open>Strings\<close>

lemma py_in_Nil_right [simp]: "py_in kw [] = (kw = [])"
  by (simp add: py_in_def)

lemma py_strip_Nil [simp]: "py_strip [] = []"
  by (simp add: py_strip_def)

lemma py_lower_Nil [simp]: "py_lower [] = []"
  by (simp add: py_lower_def)

lemma normalize_text_missing [simp]:
  "normalize_text None = []" "normalize_text (Some []) = []"
  by (simp_all add: normalize_text_def py_or_def)

lemma title_keywords_nonempty: "[] \<notin> set EXCLUDE_TITLE_KEYWORDS"
  by (simp add: EXCLUDE_TITLE_KEYWORDS_def)

lemma company_keywords_nonempty: "[] \<notin> set EXCLUDE_COMPANY_KEYWORDS"
  by (simp add: EXCLUDE_COMPANY_KEYWORDS_def)

lemma not_excluded_title_blank:
  "normalize_text t = [] \<Longrightarrow> \<not> is_excluded_title t"
  using title_keywords_nonempty by (auto simp: is_excluded_title_def list_ex_iff)

lemma not_excluded_company_blank:
  "normalize_text n = [] \<Longrightarrow> \<not> is_excluded_company n"
  using company_keywords_nonempty by (auto simp: is_excluded_company_def list_ex_iff)

subsection \<open>C10: the exclusion predicates on missing input\<close>

lemma exclusion_predicates_total:
  "(t = None \<or> t = Some []) \<Longrightarrow> (n = None \<or> n = Some []) \<Longrightarrow>
     is_excluded_title t = False \<and> is_excluded_company n = False \<and>
     (c_title p = t \<and> employer_name p = Inr n \<and> get_person_id p = Some pid \<and> pid \<noteq> []
        \<and> pid \<notin> existing_ids
      \<longrightarrow> keep_candidate existing_ids p = Inr True)"
proof -
  assume t: "t = None \<or> t = Some []" and n: "n = None \<or> n = Some []"
  from t have nt: "normalize_text t = []" by auto
  from n have nn: "normalize_text n = []" by auto
  from t have "py_or t (Some []) = Some []" by (auto simp: py_or_def)
  then have nt': "normalize_text (py_or t (Some [])) = []" by simp
  show ?thesis
    using not_excluded_title_blank [OF nt] not_excluded_company_blank [OF nn]
      not_excluded_title_blank [OF nt']
    by (auto simp: keep_candidate_def Let_def)
qed

lemma exclusion_predicates_total_example:
  "is_excluded_title None = False \<and> is_excluded_company (Some []) = False \<and>
   keep_candidate {''p0''}
     \<lparr>c_person_id = None, c_id = Some ''p1'', c_title = None, c_organization_name = None,
      c_company = None, c_organization = Org_object (Some [])\<rparr> = Inr True"
  using exclusion_predicates_total [of None "Some []"
      "\<lparr>c_person_id = None, c_id = Some ''p1'', c_title = None, c_organization_name = None,
        c_company = None, c_organization = Org_object (Some [])\<rparr>" "''p1''" "{''p0''}"]
  by (simp add: employer_name_def get_person_id_def py_or_def)

text \<open>
  C10. The two predicates return false on a title or an employer name that is absent or
  empty (\<open>exclusion_predicates_total\<close>), and a candidate whose employer name can be read is
  then kept. A candidate with no employer is not always kept, though: when its payload
  has no flat employer field and JSON null under \<open>organization\<close>, the loop body reads
  \<open>p.get("organization", {}).get("name")\<close>, whose default applies to a missing key only,
  so the read is \<open>None.get("name")\<close> and raises \<open>AttributeError\<close> before either predicate
  is called. The candidate below has an unseen identity, no title and no employer; neither
  predicate fires on its fields, \<open>is_excluded_company\<close> is never reached, and the run
  ends with the error instead of keeping the candidate.
\<close>

theorem absent_employer_raises:
  "get_person_id absent_employer_candidate = Some ''p2'' \<and>
   is_excluded_title (py_or (c_title absent_employer_candidate) (Some [])) = False \<and>
   py_or (c_organization_name absent_employer_candidate) (c_company absent_employer_candidate)
     = None \<and>
   is_excluded_company None = False \<and>
   employer_name absent_employer_candidate = Inl Attribute_error \<and>
   keep_candidate {} absent_employer_candidate = Inl Attribute_error \<and>
   collect {} absent_employer_api 1 50 [] = Inl Attribute_error"
  by code_simp

subsection \<open>C5: the retry contract of \<open>post_with_backoff\<close>\<close>

lemma backoff_delay_step:
  "min (min (d * 2) 30 * 2 ^ i) 30 = min (d * 2 ^ Suc i) (30::nat)"
proof (cases "d * 2 \<le> 30")
  case True
  then show ?thesis by (simp add: min_def mult.assoc)
next
  case False
  have p: "d \<le> d * 2 ^ i" by simp
  have q: "(30::nat) \<le> 30 * 2 ^ i" by simp
  from False have "15 < d" by simp
  then have "15 < d * 2 ^ i" using p by (rule less_le_trans)
  then have "30 \<le> d * 2 ^ Suc i" by simp
  moreover from False have "min (d * 2) 30 = 30" by simp
  ultimately show ?thesis using q by (simp only: min_absorb2 min.idem)
qed

lemma backoff_loop_contract:
  "backoff_loop m a server d = (res, sl) \<Longrightarrow> d \<le> 30 \<Longrightarrow>
     \<exists>k\<le>m. sl = map (\<lambda>i. min (d * 2 ^ i) 30) [0..<k] \<and>
       (\<forall>i<k. retryable (server (a + i))) \<and>
       (if k = m then res = Inl Retries_exhausted
        else \<not> retryable (server (a + k)) \<and> res = final_result (server (a + k)))"
proof (induction m arbitrary: a d res sl)
  case 0
  then show ?case by simp
next
  case (Suc m)
  show ?case
  proof (cases "retryable (server a)")
    case False
    with Suc.prems have "sl = [] \<and> res = final_result (server a)"
      by (auto simp: retryable_def final_result_def split: http_outcome.splits option.splits if_splits)
    with False show ?thesis by (intro exI [of _ 0]) simp
  next
    case True
    then obtain r where r: "server a = Response r" "resp_status r \<in> {429, 500, 502, 503, 504}"
      by (auto simp: retryable_def split: http_outcome.splits)
    then have n200: "resp_status r \<noteq> 200" by auto
    obtain res' sl' where rec: "backoff_loop m (Suc a) server (min (d * 2) 30) = (res', sl')"
      by (cases "backoff_loop m (Suc a) server (min (d * 2) 30)")
    with Suc.prems r n200 have eq: "res = res'" "sl = d # sl'"
      by (simp_all del: insert_iff)
    have "min (d * 2) 30 \<le> 30" by simp
    from Suc.IH [OF rec this] obtain k where k: "k \<le> m"
      "sl' = map (\<lambda>i. min (min (d * 2) 30 * 2 ^ i) 30) [0..<k]"
      "\<forall>i<k. retryable (server (Suc a + i))"
      "if k = m then res' = Inl Retries_exhausted
       else \<not> retryable (server (Suc a + k)) \<and> res' = final_result (server (Suc a + k))"
      by blast
    have "map (\<lambda>i. min (d * 2 ^ i) 30) [0..<Suc k]
            = min d 30 # map (\<lambda>i. min (d * 2 ^ Suc i) 30) [0..<k]"
      by (simp only: map_upt_Suc) simp
    with Suc.prems(2) have "sl = map (\<lambda>i. min (d * 2 ^ i) 30) [0..<Suc k]"
      unfolding eq k(2) backoff_delay_step by (simp only: min_absorb1)
    moreover have "\<forall>i<Suc k. retryable (server (a + i))"
      using True k(3) by (auto simp: less_Suc_eq_0_disj)
    moreover have "if Suc k = Suc m then res = Inl Retries_exhausted
       else \<not> retryable (server (a + Suc k)) \<and> res = final_result (server (a + Suc k))"
      using k(4) eq by (auto split: if_splits)
    ultimately show ?thesis using k(1) by (intro exI [of _ "Suc k"]) simp
  qed
qed


text \<open>
  C5 (as amended). \<open>post_with_backoff\<close> makes at most \<open>max_retries\<close> attempts (6 by
  default). It goes on to the next attempt exactly after a response with status 429,
  500, 502, 503 or 504, sleeping before it the computed delay: 1 second first, doubled
  each time, capped at 30; the \<open>Retry-After\<close> header plays no part in the delays. It
  fails only when all \<open>max_retries\<close> attempts were retryable (\<open>Retries_exhausted\<close>), or at
  once at the first attempt that is not retryable and not a success: a response with
  any other status (\<open>Request_failed\<close> with the status and the body), a 200 whose body is
  not JSON, or an exception of the HTTP client.
\<close>

theorem post_with_backoff_contract:
  "post_with_backoff server max_retries = (res, sleeps) \<Longrightarrow>
     \<exists>k\<le>max_retries. sleeps = backoff_delays k \<and>
       (\<forall>i<k. retryable (server i)) \<and>
       (if k = max_retries then res = Inl Retries_exhausted
        else \<not> retryable (server k) \<and> res = final_result (server k))"
proof -
  assume "post_with_backoff server max_retries = (res, sleeps)"
  then have run: "backoff_loop max_retries 0 server 1 = (res, sleeps)"
    by (simp add: post_with_backoff_def)
  have "(1::nat) \<le> 30" by simp
  from backoff_loop_contract [OF run this] obtain k where k: "k \<le> max_retries"
    "sleeps = map (\<lambda>i. min (1 * 2 ^ i) 30) [0..<k]"
    "\<forall>i<k. retryable (server (0 + i))"
    "if k = max_retries then res = Inl Retries_exhausted
     else \<not> retryable (server (0 + k)) \<and> res = final_result (server (0 + k))"
    by blast
  from k(2) have "sleeps = backoff_delays k" by (simp add: backoff_delays_def)
  moreover from k(3) have "\<forall>i<k. retryable (server i)" by simp
  moreover from k(4) have "if k = max_retries then res = Inl Retries_exhausted
     else \<not> retryable (server k) \<and> res = final_result (server k)"
    by (simp split: if_splits)
  ultimately show ?thesis using k(1) by blast
qed

lemma flaky_server_run: "post_with_backoff flaky_server 6 = (Inr (), [1, 2])"
  by (simp add: post_with_backoff_def flaky_server_def eval_nat_numeral)

theorem post_with_backoff_contract_witness:
  "post_with_backoff flaky_server 6 = (Inr (), [1, 2]) \<and>
   (\<exists>k\<le>6. [1, 2] = backoff_delays k \<and>
       (\<forall>i<k. retryable (flaky_server i)) \<and>
       (if k = 6 then (Inr () :: error + unit) = Inl Retries_exhausted
        else \<not> retryable (flaky_server k) \<and> Inr () = final_result (flaky_server k)))"
  using post_with_backoff_contract [OF flaky_server_run] flaky_server_run by simp

text \<open>
  The claim as stated fails: a 429 that carries \<open>Retry-After: 30\<close> is followed by the
  computed delay of 2 seconds, not by 30; a 501 (a 5xx status) is not retried; and an
  exception of the HTTP client ends the call at once, with attempts left and no status.
\<close>

theorem post_with_backoff_counterexample:
  "resp_retry_after (case flaky_server 1 of Response r \<Rightarrow> r) = Some ''30'' \<and>
   snd (post_with_backoff flaky_server 6) = [1, 2] \<and>
   post_with_backoff
     (\<lambda>i. Response \<lparr>resp_status = 501, resp_json = None :: unit option, resp_text = ''no'',
                       resp_retry_after = None\<rparr>) 6
     = (Inl (Request_failed 501 ''no''), []) \<and>
   post_with_backoff (\<lambda>i. Transport_exception :: unit http_outcome) 6
     = (Inl Transport_error, [])"
  by (simp add: post_with_backoff_def flaky_server_def eval_nat_numeral)

subsection \<open>The page loop\<close>

lemma clean_page_filter:
  "\<forall>p\<in>set ps. \<exists>k. keep_candidate ex p = Inr k \<Longrightarrow>
     clean_page ex ps = Inr (filter (\<lambda>p. keep_candidate ex p = Inr True) ps)"
  by (induction ps) auto

lemma clean_page_kept:
  "clean_page ex ps = Inr kept \<Longrightarrow>
     \<forall>p\<in>set kept. p \<in> set ps \<and> keep_candidate ex p = Inr True"
  by (induction ps arbitrary: kept) (auto split: sum.splits if_splits)

lemma keep_candidate_unseen:
  "keep_candidate ex p = Inr True \<Longrightarrow>
     \<exists>pid. get_person_id p = Some pid \<and> pid \<noteq> [] \<and> pid \<notin> ex"
  by (cases "get_person_id p") (auto simp: keep_candidate_def Let_def split: if_splits sum.splits)

lemma collect_empty_page_stops:
  "search_page (api page) = Inr resp \<Longrightarrow> parse_people_from_search resp = [] \<Longrightarrow>
     collect ex api page (Suc n) all_people = Inr all_people"
  by simp

lemma keep_candidate_readable:
  "employer_name p = Inr n \<Longrightarrow>
     keep_candidate ex p =
       Inr (truthy (get_person_id p) \<and> the (get_person_id p) \<notin> ex \<and>
            \<not> is_excluded_title (py_or (c_title p) (Some [])) \<and> \<not> is_excluded_company n)"
  by (simp add: keep_candidate_def Let_def)

lemma keep_candidate_no_identity:
  "\<not> truthy (get_person_id p) \<or> the (get_person_id p) \<in> ex \<Longrightarrow> keep_candidate ex p = Inr False"
  by (auto simp: keep_candidate_def Let_def)

text \<open>
  The scenario of the specification: 12 candidates on page 1, 3 of them with the title
  \<open>Consultant\<close>, 2 already seen; page 2 is empty.
\<close>

lemma collect_scenario_seven_kept:
  "length scenario_page = 12 \<and>
   collect {''s1'', ''s2''} scenario_api 1 50 [] =
     Inr (map (\<lambda>pid. mk_candidate pid ''CIO'')
            [''k1'', ''k2'', ''k3'', ''k4'', ''k5'', ''k6'', ''k7''])"
  by code_simp

subsection \<open>C8: the exclusions of the collection loop\<close>

text \<open>
  C8. The collection loop skips silently a candidate with no identity, with a seen
  identity, with an excluded title or with an excluded employer, and stops at the first
  empty page. The code does so whenever the employer name can be read
  (\<open>keep_candidate_readable\<close>, \<open>clean_page_filter\<close>, \<open>collect_empty_page_stops\<close>,
  \<open>collect_scenario_seven_kept\<close>), but
  not for every candidate: for one with an unseen identity, no flat employer field and
  JSON null under \<open>organization\<close>, the employer name is read before the title is
  tested, the read raises \<open>AttributeError\<close>, and the run ends, although the title is an
  excluded one.
\<close>

theorem collect_null_organization_raises:
  "is_excluded_title (c_title null_org_candidate) \<and>
   keep_candidate {} null_org_candidate = Inl Attribute_error \<and>
   collect {} null_org_api 1 50 [] = Inl Attribute_error"
  by code_simp

subsection \<open>C4: identities in the output table\<close>

lemma post_with_backoff_Inr:
  assumes "fst (post_with_backoff server n) = Inr v"
  shows "\<exists>k r. server k = Response r \<and> resp_json r = Some v"
proof -
  obtain res sl where run: "backoff_loop n 0 server 1 = (res, sl)"
    by (cases "backoff_loop n 0 server 1")
  with assms have res: "res = Inr v" by (simp add: post_with_backoff_def)
  have "(1::nat) \<le> 30" by simp
  from backoff_loop_contract [OF run this] obtain k where
    k: "if k = n then res = Inl Retries_exhausted
        else \<not> retryable (server (0 + k)) \<and> res = final_result (server (0 + k))"
    by blast
  with res have "final_result (server k) = Inr v" by (simp split: if_splits)
  then show ?thesis
    by (auto simp: final_result_def split: http_outcome.splits if_splits option.splits)
qed

lemma chunked_subset: "b \<in> set (chunked xs n) \<Longrightarrow> set b \<subseteq> set xs"
proof (induction xs n rule: chunked.induct)
  case (1 lst n)
  show ?case
  proof (cases "lst = [] \<or> n = 0")
    case True
    with "1.prems" show ?thesis by simp
  next
    case False
    with "1.prems" have "b = take n lst \<or> b \<in> set (chunked (drop n lst) n)"
      by (subst (asm) chunked.simps) simp
    then show ?thesis
    proof
      assume "b = take n lst"
      then show ?thesis by (simp add: set_take_subset)
    next
      assume "b \<in> set (chunked (drop n lst) n)"
      with "1.IH" False have "set b \<subseteq> set (drop n lst)" by simp
      then show ?thesis using set_drop_subset [of n lst] by blast
    qed
  qed
qed

lemma collect_unseen:
  "collect ex api page n acc = Inr people \<Longrightarrow>
   \<forall>p\<in>set acc. \<exists>pid. get_person_id p = Some pid \<and> pid \<noteq> [] \<and> pid \<notin> ex \<Longrightarrow>
   \<forall>p\<in>set people. \<exists>pid. get_person_id p = Some pid \<and> pid \<noteq> [] \<and> pid \<notin> ex"
proof (induction n arbitrary: page acc)
  case 0
  then show ?case by simp
next
  case (Suc n)
  show ?case
  proof (cases "search_page (api page)")
    case (Inl e)
    with Suc.prems show ?thesis by simp
  next
    case (Inr resp)
    show ?thesis
    proof (cases "parse_people_from_search resp = []")
      case True
      with Inr Suc.prems show ?thesis by simp
    next
      case False
      show ?thesis
      proof (cases "clean_page ex (parse_people_from_search resp)")
        case (Inl e)
        with Inr False Suc.prems show ?thesis by simp
      next
        case kept: (Inr kept)
        with Inr False Suc.prems(1)
        have rec: "collect ex api (Suc page) n (acc @ kept) = Inr people" by simp
        have "\<forall>p\<in>set (acc @ kept). \<exists>pid. get_person_id p = Some pid \<and> pid \<noteq> [] \<and> pid \<notin> ex"
          using Suc.prems(2) clean_page_kept [OF kept] keep_candidate_unseen by auto
        from Suc.IH [OF rec this] show ?thesis .
      qed
    qed
  qed
qed

lemma batch_details_unseen:
  "\<forall>p\<in>set batch. \<exists>pid. get_person_id p = Some pid \<and> pid \<noteq> [] \<and> pid \<notin> ex \<Longrightarrow>
   pid \<in> set (batch_details batch) \<Longrightarrow> pid \<noteq> [] \<and> pid \<notin> ex"
  by (auto simp: batch_details_def)

lemma rows_of_matches_ids:
  "row \<in> set (rows_of_matches ms) \<Longrightarrow> \<exists>m\<in>set ms. l_person_id row = py_or (m_id m) (m_person_id m)"
  by (auto simp: rows_of_matches_def row_of_match_def Let_def)

lemma enrich_loop_rows:
  "enrich_loop enrich i batches table ids = (err, table', ids') \<Longrightarrow> echoes enrich \<Longrightarrow>
   \<forall>b\<in>set batches. \<forall>p\<in>set b. \<exists>pid. get_person_id p = Some pid \<and> pid \<noteq> [] \<and> pid \<notin> ex \<Longrightarrow>
   \<exists>new. table' = table @ new \<and>
     (\<forall>row\<in>set new. \<exists>pid. l_person_id row = Some pid \<and> pid \<noteq> [] \<and> pid \<notin> ex)"
proof (induction batches arbitrary: i table ids)
  case Nil
  then show ?case by simp
next
  case (Cons batch batches)
  show ?case
  proof (cases "fst (post_with_backoff (enrich i (batch_details batch)) 6)")
    case (Inl e)
    with Cons.prems(1) show ?thesis by simp
  next
    case (Inr enrich_resp)
    define ms where "ms = (case enrich_resp of None \<Rightarrow> [] | Some ms \<Rightarrow> ms)"
    from Inr Cons.prems(1)
    have rec: "enrich_loop enrich (Suc i) batches (table @ rows_of_matches ms)
                 (ids \<union> load_existing_person_ids (rows_of_matches ms)) = (err, table', ids')"
      by (simp add: ms_def Let_def)
    from Cons.prems(3)
    have rest: "\<forall>b\<in>set batches. \<forall>p\<in>set b. \<exists>pid. get_person_id p = Some pid \<and> pid \<noteq> [] \<and> pid \<notin> ex"
      by simp
    from Cons.IH [OF rec Cons.prems(2) rest] obtain new where
      new: "table' = (table @ rows_of_matches ms) @ new"
        "\<forall>row\<in>set new. \<exists>pid. l_person_id row = Some pid \<and> pid \<noteq> [] \<and> pid \<notin> ex"
      by blast
    from post_with_backoff_Inr [OF Inr] obtain k r where
      r: "enrich i (batch_details batch) k = Response r" "resp_json r = Some enrich_resp"
      by blast
    have "\<exists>pid. l_person_id row = Some pid \<and> pid \<noteq> [] \<and> pid \<notin> ex"
      if row: "row \<in> set (rows_of_matches ms)" for row
    proof -
      from rows_of_matches_ids [OF row] obtain m where
        m: "m \<in> set ms" "l_person_id row = py_or (m_id m) (m_person_id m)" by blast
      from m(1) have "enrich_resp = Some ms"
        by (cases enrich_resp) (auto simp: ms_def)
      with r have "resp_json r = Some (Some ms)" by simp
      with Cons.prems(2) r(1) m(1) obtain pid where
        pid: "pid \<in> set (batch_details batch)" "py_or (m_id m) (m_person_id m) = Some pid"
        unfolding echoes_def by blast
      from Cons.prems(3) have "\<forall>p\<in>set batch. \<exists>pid. get_person_id p = Some pid \<and> pid \<noteq> [] \<and> pid \<notin> ex"
        by simp
      from batch_details_unseen [OF this pid(1)] m(2) pid(2) show ?thesis by simp
    qed
    with new show ?thesis by (intro exI [of _ "rows_of_matches ms @ new"]) auto
  qed
qed

text \<open>
  What the pre-filter of the collection loop does achieve: it passes on to enrichment only
  candidates whose identity was not in the output table when the run started. Hence, when
  the enrichment service returns only people it was asked for, a run only appends to the
  table, and every row it appends carries an identity that was not in the table at the
  start of the run.
\<close>

lemma rerun_appends_only_unseen:
  assumes "echoes enrich"
    and "main_collect table args api enrich = (err, table')"
  shows "\<exists>new. table' = table @ new \<and>
     (\<forall>row\<in>set new. \<exists>pid. l_person_id row = Some pid \<and> pid \<noteq> [] \<and>
        pid \<notin> load_existing_person_ids table)"
proof (cases "collect (load_existing_person_ids table) api 1 (max_pages args) []")
  case (Inl e)
  with assms(2) show ?thesis by (simp add: main_collect_def)
next
  case (Inr all_people)
  show ?thesis
  proof (cases "dry_run args")
    case True
    with Inr assms(2) show ?thesis by (simp add: main_collect_def)
  next
    case False
    obtain e t ids where
      loop: "enrich_loop enrich 1 (chunked all_people 10) table (load_existing_person_ids table)
               = (e, t, ids)"
      by (cases "enrich_loop enrich 1 (chunked all_people 10) table (load_existing_person_ids table)")
    with Inr False assms(2) have t: "t = table'" by (simp add: main_collect_def)
    have "\<forall>p\<in>set all_people. \<exists>pid. get_person_id p = Some pid \<and> pid \<noteq> [] \<and>
            pid \<notin> load_existing_person_ids table"
      using collect_unseen [OF Inr] by simp
    then have "\<forall>b\<in>set (chunked all_people 10). \<forall>p\<in>set b.
        \<exists>pid. get_person_id p = Some pid \<and> pid \<noteq> [] \<and> pid \<notin> load_existing_person_ids table"
      using chunked_subset by blast
    from enrich_loop_rows [OF loop assms(1) this] t show ?thesis by simp
  qed
qed

lemma echoes_echo_enrich: "echoes echo_enrich"
  by (auto simp: echoes_def echo_enrich_def ok_response_def mk_match_def py_or_def)

lemma repeat_run:
  "main_collect [] \<lparr>max_pages = 50, dry_run = False\<rparr> repeat_api echo_enrich =
    (None, map (\<lambda>pid. row_of_match (mk_match pid))
       [''a0'', ''a1'', ''a2'', ''a3'', ''a4'', ''a5'', ''a6'', ''a7'', ''a8'', ''a9'', ''a0''])"
  by code_simp

lemma rerun_run:
  "main_collect seen_table \<lparr>max_pages = 50, dry_run = False\<rparr> repeat_api echo_enrich =
    (None, seen_table @ map (\<lambda>pid. row_of_match (mk_match pid))
       [''a1'', ''a2'', ''a3'', ''a4'', ''a5'', ''a6'', ''a7'', ''a8'', ''a9''])"
  by code_simp

lemma rerun_appends_only_unseen_example:
  "\<exists>new. seen_table @ map (\<lambda>pid. row_of_match (mk_match pid))
       [''a1'', ''a2'', ''a3'', ''a4'', ''a5'', ''a6'', ''a7'', ''a8'', ''a9''] = seen_table @ new \<and>
     (\<forall>row\<in>set new. \<exists>pid. l_person_id row = Some pid \<and> pid \<noteq> [] \<and>
        pid \<notin> load_existing_person_ids seen_table)"
  using rerun_appends_only_unseen [OF echoes_echo_enrich rerun_run]
  by simp

text \<open>
  C4. An identity is not written at most once. The set \<open>existing_ids\<close> is read by the
  collection loop only, while it still holds what the table held at the start of the run;
  \<open>main\<close> adds the identities of the rows it has written after each flush, but nothing
  reads the set after that, and the enrichment loop writes every match that passes the
  exclusions without looking at it. So an identity that the search returns twice within
  one run is enriched and written twice. Here the table is empty at the start, the search
  returns \<open>a0\<close> to \<open>a9\<close> on page 1 and \<open>a0\<close> again on page 2, the enrichment service
  returns exactly the people asked for, and the run ends without error, with two rows for
  \<open>a0\<close> in the table.
\<close>

theorem repeated_identity_written_twice:
  "main_collect [] \<lparr>max_pages = 50, dry_run = False\<rparr> repeat_api echo_enrich =
    (None, map (\<lambda>pid. row_of_match (mk_match pid))
       [''a0'', ''a1'', ''a2'', ''a3'', ''a4'', ''a5'', ''a6'', ''a7'', ''a8'', ''a9'', ''a0'']) \<and>
   map l_person_id
     (snd (main_collect [] \<lparr>max_pages = 50, dry_run = False\<rparr> repeat_api echo_enrich)) =
     map Some [''a0'', ''a1'', ''a2'', ''a3'', ''a4'', ''a5'', ''a6'', ''a7'', ''a8'', ''a9'', ''a0''] \<and>
   \<not> distinct (map l_person_id
        (snd (main_collect [] \<lparr>max_pages = 50, dry_run = False\<rparr> repeat_api echo_enrich)))"
  by (simp add: repeat_run row_of_match_def mk_match_def py_or_def Let_def)

subsection \<open>C2: one ledger entry per recipient and day\<close>

lemma mark_sent_present:
  "(email, today cal clock) \<in> set (map ledger_key con) \<Longrightarrow>
     mark_sent cal con clock email person_id company subject st = con"
  by (auto simp: mark_sent_def list_ex_iff ledger_key_def)

lemma mark_sent_unique:
  "unique_keys con \<Longrightarrow> unique_keys (mark_sent cal con clock email person_id company subject st)"
  by (auto simp: mark_sent_def unique_keys_def list_ex_iff ledger_key_def)

text \<open>
  C2. For every pair of a recipient email and a day the ledger holds at most one entry:
  the empty ledger has unique keys and \<open>mark_sent\<close>, the only writer, keeps them unique.
  Inserting an entry whose (email, day) key is already present returns the ledger as it
  was: the existing entry is unchanged, and nothing is raised (\<open>mark_sent\<close> has no error
  result).
\<close>

theorem ledger_unique_and_idempotent:
  "unique_keys [] \<and>
   (unique_keys con \<longrightarrow> unique_keys (mark_sent cal con clock email person_id company subject st)) \<and>
   ((email, today cal clock) \<in> set (map ledger_key con) \<longrightarrow>
      mark_sent cal con clock email person_id company subject st = con) \<and>
   (let con' = mark_sent cal con clock email person_id company subject st
    in mark_sent cal con' clock email person_id' company' subject' st' = con')"
proof -
  have "(email, today cal clock) \<in> set (map ledger_key (mark_sent cal con clock email person_id company subject st))"
    by (auto simp: mark_sent_def list_ex_iff ledger_key_def)
  then show ?thesis
    using mark_sent_present mark_sent_unique by (simp add: unique_keys_def Let_def)
qed

theorem ledger_unique_and_idempotent_witness:
  "unique_keys [] \<and>
   unique_keys (mark_sent plain_days [] 100 ''a@b.co'' ''p1'' ''Acme'' ''hello'' Sent) \<and>
   ledger_after_two_inserts = mark_sent plain_days [] 100 ''a@b.co'' ''p1'' ''Acme'' ''hello'' Sent \<and>
   length ledger_after_two_inserts = 1"
  using ledger_unique_and_idempotent [of "[]" plain_days 100 "''a@b.co''" "''p1''" "''Acme''"
      "''hello''" Sent]
    ledger_unique_and_idempotent
      [of "mark_sent plain_days [] 100 ''a@b.co'' ''p1'' ''Acme'' ''hello'' Sent" plain_days
        200 "''a@b.co''" "''p1''" "''Acme''" "''hello again''" "Failed 500 ''oops''"]
  by (simp add: ledger_after_two_inserts_def mark_sent_def today_def plain_days_def
      ledger_key_def)

subsection \<open>Ranking by seniority\<close>

lemma first_score_find:
  "first_score t tbl = (case find (\<lambda>(kw, sc). py_in kw t) tbl of None \<Rightarrow> 1 | Some (kw, sc) \<Rightarrow> sc)"
  by (induction tbl) auto

lemma first_score_highest:
  "sorted_wrt (\<lambda>a b. snd b \<le> snd a) tbl \<Longrightarrow> (kw, sc) \<in> set tbl \<Longrightarrow> py_in kw t \<Longrightarrow>
     sc \<le> first_score t tbl"
proof (induction tbl)
  case Nil
  then show ?case by simp
next
  case (Cons a tbl)
  obtain kw' sc' where a: "a = (kw', sc')" by (cases a)
  show ?case
  proof (cases "py_in kw' t")
    case True
    with Cons.prems a show ?thesis by auto
  next
    case False
    with Cons a show ?thesis by auto
  qed
qed

lemma seniority_table_sorted: "sorted_wrt (\<lambda>a b. snd b \<le> snd a) seniority_table"
  by (simp add: seniority_table_def)

lemma reversing_sort_sorts: "sorts_descending reversing_sort"
proof -
  have "sorted_wrt (\<lambda>a b. row_score b \<le> row_score a) (rev (sort_key row_score rows))" for rows
  proof -
    have "sorted (map row_score (sort_key row_score rows))" by (rule sorted_sort_key)
    then have "sorted_wrt (\<lambda>a b. row_score a \<le> row_score b) (sort_key row_score rows)"
      by (simp add: sorted_map)
    then show ?thesis by (simp add: sorted_wrt_rev)
  qed
  then show ?thesis by (simp add: sorts_descending_def reversing_sort_def)
qed

subsection \<open>C9: the pre-filter\<close>

lemma email_char_dot: "email_char CHR ''.''"
  by (simp add: email_char_def py_isspace_def)

lemma email_char_at: "\<not> email_char CHR ''@''"
  by (simp add: email_char_def)

lemma domain_shape_iff:
  "domain_shape d \<longleftrightarrow>
     (\<exists>b c. d = b @ ''.'' @ c \<and> b \<noteq> [] \<and> c \<noteq> [] \<and> list_all email_char b \<and> list_all email_char c)"
proof
  assume ds: "domain_shape d"
  then have dot: "CHR ''.'' \<in> set (butlast (tl d))" and all: "list_all email_char d"
    by (simp_all add: domain_shape_def)
  from dot obtain p q where pq: "butlast (tl d) = p @ CHR ''.'' # q"
    by (meson split_list)
  then have tne: "tl d \<noteq> []" by auto
  then have dne: "d \<noteq> []" by auto
  from tne have "tl d = butlast (tl d) @ [last (tl d)]" by simp
  with pq have "tl d = p @ CHR ''.'' # (q @ [last (tl d)])" by simp
  with dne have d: "d = (hd d # p) @ ''.'' @ (q @ [last (tl d)])"
    by (metis append_Cons append_Nil list.collapse)
  from all have "list_all email_char ((hd d # p) @ ''.'' @ (q @ [last (tl d)]))"
    by (subst d [symmetric])
  then have "list_all email_char (hd d # p) \<and> list_all email_char (q @ [last (tl d)])"
    by simp
  with d show "\<exists>b c. d = b @ ''.'' @ c \<and> b \<noteq> [] \<and> c \<noteq> [] \<and> list_all email_char b \<and> list_all email_char c"
    by blast
next
  assume "\<exists>b c. d = b @ ''.'' @ c \<and> b \<noteq> [] \<and> c \<noteq> [] \<and> list_all email_char b \<and> list_all email_char c"
  then obtain b c where d: "d = b @ ''.'' @ c" and ne: "b \<noteq> []" "c \<noteq> []"
    and all: "list_all email_char b" "list_all email_char c" by blast
  from ne obtain b0 b' where b: "b = b0 # b'" by (cases b) auto
  from ne(2) have "butlast (tl d) = b' @ CHR ''.'' # butlast c"
    by (simp add: d b butlast_append)
  then have "CHR ''.'' \<in> set (butlast (tl d))" by simp
  moreover from all have "list_all email_char d" by (simp add: d email_char_dot)
  ultimately show "domain_shape d" by (simp add: domain_shape_def)
qed

lemma full_email_iff:
  "full_email s \<longleftrightarrow>
     (\<exists>a b c. s = a @ ''@'' @ b @ ''.'' @ c \<and> a \<noteq> [] \<and> b \<noteq> [] \<and> c \<noteq> [] \<and>
        list_all email_char a \<and> list_all email_char b \<and> list_all email_char c)"
proof
  assume fe: "full_email s"
  then obtain d where a: "takeWhile email_char s \<noteq> []"
    and dw: "dropWhile email_char s = CHR ''@'' # d" and ds: "domain_shape d"
    by (auto simp: full_email_def split: list.splits)
  from ds obtain b c where d: "d = b @ ''.'' @ c" "b \<noteq> []" "c \<noteq> []"
    "list_all email_char b" "list_all email_char c"
    unfolding domain_shape_iff by blast
  have "s = takeWhile email_char s @ dropWhile email_char s" by simp
  with dw d(1) have "s = takeWhile email_char s @ ''@'' @ b @ ''.'' @ c" by simp
  moreover have "list_all email_char (takeWhile email_char s)"
    by (simp add: list_all_iff) (meson set_takeWhileD)
  ultimately show "\<exists>a b c. s = a @ ''@'' @ b @ ''.'' @ c \<and> a \<noteq> [] \<and> b \<noteq> [] \<and> c \<noteq> [] \<and>
        list_all email_char a \<and> list_all email_char b \<and> list_all email_char c"
    using a d by blast
next
  assume "\<exists>a b c. s = a @ ''@'' @ b @ ''.'' @ c \<and> a \<noteq> [] \<and> b \<noteq> [] \<and> c \<noteq> [] \<and>
        list_all email_char a \<and> list_all email_char b \<and> list_all email_char c"
  then obtain a b c where s: "s = a @ ''@'' @ b @ ''.'' @ c" and ne: "a \<noteq> []" "b \<noteq> []" "c \<noteq> []"
    and all: "list_all email_char a" "list_all email_char b" "list_all email_char c" by blast
  from all(1) have tw: "takeWhile email_char s = a"
    by (simp add: s list_all_iff takeWhile_append2 email_char_at)
  from all(1) have dw: "dropWhile email_char s = CHR ''@'' # (b @ ''.'' @ c)"
    by (simp add: s list_all_iff dropWhile_append2 email_char_at)
  have "domain_shape (b @ ''.'' @ c)"
    unfolding domain_shape_iff using ne all by blast
  with tw dw ne show "full_email s" by (simp add: full_email_def)
qed

lemma not_an_email: "\<not> is_valid_email ''not-an-email''"
  by (simp add: is_valid_email_def)

lemma nan_email: "\<not> is_valid_email (py_strip (py_str NaN))"
  by code_simp

lemma py_strip_last: "py_strip s \<noteq> [] \<Longrightarrow> \<not> py_isspace (last (py_strip s))"
proof -
  assume ne: "py_strip s \<noteq> []"
  define xs where "xs = dropWhile py_isspace (rev (dropWhile py_isspace s))"
  from ne have xs: "xs \<noteq> []" by (simp add: py_strip_def xs_def)
  then have "\<not> py_isspace (hd xs)" unfolding xs_def by (rule hd_dropWhile)
  moreover from xs have "last (rev xs) = hd xs" by (simp add: last_rev)
  ultimately show ?thesis by (simp add: py_strip_def xs_def)
qed

lemma py_strip_hd: "py_strip s \<noteq> [] \<Longrightarrow> \<not> py_isspace (hd (py_strip s))"
proof -
  assume ne: "py_strip s \<noteq> []"
  define u where "u = dropWhile py_isspace s"
  have w: "py_strip s = rev (dropWhile py_isspace (rev u))" by (simp add: py_strip_def u_def)
  have "rev (dropWhile py_isspace (rev u)) @ rev (takeWhile py_isspace (rev u))
          = rev (takeWhile py_isspace (rev u) @ dropWhile py_isspace (rev u))"
    by (simp only: rev_append)
  also have "\<dots> = u" by (simp only: takeWhile_dropWhile_id rev_rev_ident)
  finally have split: "u = py_strip s @ rev (takeWhile py_isspace (rev u))"
    by (simp only: w)
  with ne have "u \<noteq> []" by auto
  then have "\<not> py_isspace (hd u)" unfolding u_def by (rule hd_dropWhile)
  moreover from split ne have "hd u = hd (py_strip s)" by (metis hd_append2)
  ultimately show ?thesis by simp
qed

lemma py_strip_idem: "py_strip (py_strip s) = py_strip s"
proof (cases "py_strip s = []")
  case True
  then show ?thesis by simp
next
  case False
  from py_strip_hd [OF False] False have a: "dropWhile py_isspace (py_strip s) = py_strip s"
    by (cases "py_strip s") auto
  from py_strip_last [OF False] False
  have "\<not> py_isspace (hd (rev (py_strip s)))" by (simp add: hd_rev)
  with False have "dropWhile py_isspace (rev (py_strip s)) = rev (py_strip s)"
    by (cases "rev (py_strip s)") auto
  with a show ?thesis by (simp add: py_strip_def [of "py_strip s"])
qed

lemma settle_posts:
  "settle env email resp acts = (st, acts', slept) \<Longrightarrow> Post e \<in> set acts' \<Longrightarrow>
     Post e \<in> set acts \<or> e = email"
  by (auto simp: settle_def split: if_splits sum.splits http_outcome.splits)

lemma attempt_send_posts:
  "attempt_send env email = (st, acts, slept) \<Longrightarrow> Post e \<in> set acts \<Longrightarrow> e = email"
  by (auto simp: attempt_send_def split: if_splits http_outcome.splits dest!: settle_posts)

lemma dispatch_one_posts:
  "dispatch_one cal lim env r s = (res, s', acts) \<Longrightarrow> Post e \<in> set acts \<Longrightarrow> e = r_email r"
  by (auto simp: dispatch_one_def Let_def split: if_splits sum.splits prod.splits
      dest: attempt_send_posts)

lemma dispatch_loop_posts:
  "dispatch_loop cal lim es i rows s = (res, s', acts) \<Longrightarrow> Post e \<in> set acts \<Longrightarrow>
     e \<in> r_email ` set rows"
proof (induction rows arbitrary: i s res s' acts)
  case Nil
  then show ?case by simp
next
  case (Cons r rows)
  obtain res1 s1 acts1 where one: "dispatch_one cal lim (es i) r s = (res1, s1, acts1)"
    by (cases "dispatch_one cal lim (es i) r s")
  show ?case
  proof (cases res1)
    case (Some err)
    with one Cons.prems have "acts = acts1" by simp
    with one Cons.prems(2) show ?thesis by (auto dest: dispatch_one_posts)
  next
    case None
    obtain res2 s2 acts2 where rest: "dispatch_loop cal lim es (Suc i) rows s1 = (res2, s2, acts2)"
      by (cases "dispatch_loop cal lim es (Suc i) rows s1")
    with one None Cons.prems(1) have "acts = acts1 @ acts2" by simp
    with Cons.prems(2) have "Post e \<in> set acts1 \<or> Post e \<in> set acts2" by auto
    then show ?thesis
    proof
      assume "Post e \<in> set acts1"
      with one show ?thesis by (auto dest: dispatch_one_posts)
    next
      assume "Post e \<in> set acts2"
      from Cons.IH [OF rest this] show ?thesis by auto
    qed
  qed
qed

lemma re_match_email_stripped: "re_match_email (py_strip s) = full_email (py_strip s)"
proof -
  have "(10::nat) \<in> {9, 10, 11, 12, 13, 28, 29, 30, 31, 32, 133, 160}" by simp
  then have "py_isspace (CHR 0x0A)" by (simp add: py_isspace_def)
  with py_strip_last [of s] show ?thesis by (auto simp: re_match_email_def)
qed

lemma load_do_not_email_blocks:
  "line \<in> set lines \<Longrightarrow> py_strip line \<noteq> [] \<Longrightarrow> py_lower e = py_lower (py_strip line) \<Longrightarrow>
     py_lower e \<in> load_do_not_email lines"
  by (auto simp: load_do_not_email_def)

text \<open>
  C9. Every send attempt of a run goes to the address of a row of the data frame that
  passed the three filters: the address (stripped) is valid, that is, it has an \<open>@\<close> and
  the shape local\<open>@\<close>domain\<open>.\<close>tld with the three parts non-empty and free of \<open>@\<close> and white
  space; the normalised deliverability status is \<open>verified\<close> or \<open>likely to engage\<close>; and
  the lower-cased address is not in the do-not-email set (whose members
  \<open>load_do_not_email\<close> has lower-cased, so the comparison ignores case). The address
  \<open>not-an-email\<close> and the text of an empty cell are not valid, so such rows are never
  sent to.
\<close>

theorem prefilter_guards_sends:
  assumes "sorts_descending (sort_values run)"
    and "main_dispatch run s = (res, s', acts)"
    and "Post e \<in> set acts"
  shows "(\<exists>c \<in> set (df run).
           e = py_strip (py_str (csv_email c)) \<and> is_valid_email e \<and>
           (\<exists>local domain tld. e = local @ ''@'' @ domain @ ''.'' @ tld \<and>
              local \<noteq> [] \<and> domain \<noteq> [] \<and> tld \<noteq> [] \<and>
              list_all email_char local \<and> list_all email_char domain \<and> list_all email_char tld) \<and>
           py_strip (py_lower (py_str (csv_email_status c))) \<in> ALLOWED_EMAIL_STATUS \<and>
           py_lower e \<notin> do_not_email run) \<and>
         \<not> is_valid_email ''not-an-email'' \<and>
         \<not> is_valid_email (py_strip (py_str NaN))"
proof -
  from assms(2,3) have loop:
    "dispatch_loop (calendar run) (daily_limit run) (envs run) 0
       (ranked (sort_values run) (do_not_email run) (df run)) s = (res, s', acts)"
    by (auto simp: main_dispatch_def Let_def split: if_splits)
  from assms(1) have "set (ranked (sort_values run) (do_not_email run) (df run))
      = set (prefilter (do_not_email run) (df run))"
    unfolding sorts_descending_def ranked_def by (metis mset_eq_setD)
  with dispatch_loop_posts [OF loop assms(3)]
  obtain c where c: "c \<in> set (df run)" "e = r_email (normalize_row c)"
    "is_valid_email (r_email (normalize_row c))"
    "r_email_status_norm (normalize_row c) \<in> ALLOWED_EMAIL_STATUS"
    "py_lower (r_email (normalize_row c)) \<notin> do_not_email run"
    by (auto simp: prefilter_def)
  from c(2) have e: "e = py_strip (py_str (csv_email c))" by (simp add: normalize_row_def)
  then have "py_strip e = e" by (simp add: py_strip_idem)
  with c(2,3) have "full_email e"
    by (metis is_valid_email_def re_match_email_stripped)
  then have "\<exists>local domain tld. e = local @ ''@'' @ domain @ ''.'' @ tld \<and>
              local \<noteq> [] \<and> domain \<noteq> [] \<and> tld \<noteq> [] \<and>
              list_all email_char local \<and> list_all email_char domain \<and> list_all email_char tld"
    by (simp only: full_email_iff)
  with c e have "\<exists>c \<in> set (df run).
           e = py_strip (py_str (csv_email c)) \<and> is_valid_email e \<and>
           (\<exists>local domain tld. e = local @ ''@'' @ domain @ ''.'' @ tld \<and>
              local \<noteq> [] \<and> domain \<noteq> [] \<and> tld \<noteq> [] \<and>
              list_all email_char local \<and> list_all email_char domain \<and> list_all email_char tld) \<and>
           py_strip (py_lower (py_str (csv_email_status c))) \<in> ALLOWED_EMAIL_STATUS \<and>
           py_lower e \<notin> do_not_email run"
    by (intro bexI [of _ c]) (simp_all add: normalize_row_def)
  with not_an_email nan_email show ?thesis by (intro conjI)
qed

lemma filter_run_sorts: "sorts_descending (sort_values filter_run)"
  by (simp add: filter_run_def reversing_sort_sorts)

lemmas dispatch_eval =
  main_dispatch_def dispatch_one_def attempt_send_def settle_def accepted_def build_message_def
  throttle_pause_def mark_sent_def sent_count_today_def customer_count_today_def today_def
  plain_days_def INT_MAX_STR_DIGITS_def SLEEP_MAX_SEC_def MAX_PER_COMPANY_PER_DAY_def SLEEP_BETWEEN_SENDS_SEC_def Let_def normalize_row_def lead_row_def
  calm_env_def mail_response_def fresh_state_def py_strip_def py_isspace_def

lemma filter_run_ranked:
  "ranked (sort_values filter_run) (do_not_email filter_run) (df filter_run)
     = [normalize_row (lead_row ''ok@acme.io'' ''CIO'' ''Acme'')]"
  by code_simp

lemma filter_run_result:
  "main_dispatch filter_run fresh_state =
     (None,
      \<lparr>ledger = [\<lparr>send_date = 0, sent_at = 1003, e_email = ''ok@acme.io'', e_person_id = ''p'',
                  e_company = ''Acme'',
                  e_subject = ''AVC at Acme re: master data governance for SAP S/4HANA programs'',
                  e_status = Sent\<rparr>],
       now = 1183, sent_now = 1\<rparr>,
      [Post ''ok@acme.io'', Sleep 180])"
proof -
  have "daily_limit filter_run = 50" "token_ok filter_run" "envs filter_run = (\<lambda>i. calm_env)"
    "calendar filter_run = plain_days"
    by (simp_all add: filter_run_def)
  then show ?thesis
    unfolding main_dispatch_def filter_run_ranked Let_def
    by (simp add: dispatch_eval)
qed

theorem prefilter_guards_sends_witness:
  "sorts_descending (sort_values filter_run) \<and>
   snd (snd (main_dispatch filter_run fresh_state)) = [Post ''ok@acme.io'', Sleep 180] \<and>
   (\<exists>c \<in> set (df filter_run).
      ''ok@acme.io'' = py_strip (py_str (csv_email c)) \<and> is_valid_email ''ok@acme.io'' \<and>
      py_strip (py_lower (py_str (csv_email_status c))) \<in> ALLOWED_EMAIL_STATUS \<and>
      py_lower ''ok@acme.io'' \<notin> do_not_email filter_run) \<and>
   \<not> is_valid_email ''not-an-email''"
proof -
  have p: "Post ''ok@acme.io'' \<in> set [Post ''ok@acme.io'', Sleep 180]" by simp
  have run: "snd (snd (main_dispatch filter_run fresh_state)) = [Post ''ok@acme.io'', Sleep 180]"
    by (simp add: filter_run_result)
  from prefilter_guards_sends [OF filter_run_sorts filter_run_result p]
  have "(\<exists>c \<in> set (df filter_run).
      ''ok@acme.io'' = py_strip (py_str (csv_email c)) \<and> is_valid_email ''ok@acme.io'' \<and>
      py_strip (py_lower (py_str (csv_email_status c))) \<in> ALLOWED_EMAIL_STATUS \<and>
      py_lower ''ok@acme.io'' \<notin> do_not_email filter_run) \<and>
   \<not> is_valid_email ''not-an-email''"
    by blast
  with filter_run_sorts run show ?thesis by (intro conjI) blast+
qed

subsection \<open>C3: the daily quota\<close>

lemma today_mono: "short_days cal \<Longrightarrow> a \<le> b \<Longrightarrow> today cal a \<le> today cal b"
  by (simp add: today_def short_days_def)

lemma today_after_pause: "short_days cal \<Longrightarrow> t + 86500 \<le> u \<Longrightarrow> today cal t < today cal u"
proof -
  assume sd: "short_days cal" and "t + 86500 \<le> u"
  then have "cal (t + 86500) \<le> cal u" by (simp add: short_days_def)
  moreover from sd have "cal t < cal (t + 86500)" by (simp add: short_days_def)
  ultimately show ?thesis by (simp add: today_def)
qed

lemma plain_days_short: "short_days plain_days"
proof -
  have "t div 86400 < (t + 86500) div 86400" for t :: nat
  proof -
    have "(t + 86400) div 86400 \<le> (t + 86500) div 86400" by (rule div_le_mono) simp
    then show ?thesis by simp
  qed
  then show ?thesis by (simp add: short_days_def plain_days_def div_le_mono)
qed

lemma autumn_calendar_long_day: "autumn_calendar 1184 = autumn_calendar (1184 + 86500)"
  by (simp add: autumn_calendar_def)

lemma sent_on_le_count: "sent_on con (today cal t) \<le> sent_count_today cal con t"
proof -
  have "length (filter (\<lambda>e. send_date e = today cal t \<and> e_status e = Sent) con)
          \<le> length (filter (\<lambda>e. send_date e = today cal t) con)"
    by (induction con) auto
  then show ?thesis by (simp add: sent_on_def sent_count_today_def)
qed

lemma sent_on_nonneg: "0 \<le> sent_on con d"
  by (simp add: sent_on_def)

lemma sent_on_later: "\<forall>e\<in>set con. send_date e < d \<Longrightarrow> sent_on con d = 0"
  by (auto simp: sent_on_def filter_empty_conv)

lemma sent_on_mark_sent_other:
  "d \<noteq> today cal t \<Longrightarrow> sent_on (mark_sent cal con t email pid company subject st) d = sent_on con d"
  by (simp add: mark_sent_def sent_on_def)

lemma sent_on_mark_sent_le:
  "sent_on (mark_sent cal con t email pid company subject st) d \<le> sent_on con d + 1"
  by (simp add: mark_sent_def sent_on_def)

lemma mark_sent_dates:
  "e \<in> set (mark_sent cal con t email pid company subject st) \<Longrightarrow> e \<in> set con \<or> send_date e = today cal t"
  by (auto simp: mark_sent_def split: if_splits)

text \<open>What one pass does to the ledger and the clock, without the detail of the sending.\<close>

lemma dispatch_one_cases:
  assumes "dispatch_one cal lim env r s = (res, s', acts)"
  shows "(ledger s' = ledger s \<and> now s \<le> now s') \<or>
         (\<exists>t pid company subject st.
            ledger s' = mark_sent cal (ledger s) t (r_email r) pid company subject st \<and>
            t \<le> now s' \<and> res = None \<and>
            (if lim \<le> sent_count_today cal (ledger s) (now s + tick_quota env)
             then now s + tick_quota env + 86500 \<le> t
             else now s + tick_quota env \<le> t))"
proof -
  define t1 where "t1 = now s + tick_quota env"
  define over where "over = (lim \<le> sent_count_today cal (ledger s) t1)"
  define t2 where "t2 = (if over then t1 + 86500 else t1) + tick_cap env"
  define company where "company = py_strip (py_str (r_organization_name r))"
  have t12: "now s \<le> t2" by (simp add: t2_def t1_def)
  show ?thesis
  proof (cases "company \<noteq> [] \<and> MAX_PER_COMPANY_PER_DAY \<le> customer_count_today cal (ledger s) t2 company")
    case True
    with assms have "s' = s\<lparr>now := t2\<rparr>"
      unfolding dispatch_one_def Let_def t1_def [symmetric] over_def [symmetric]
        company_def [symmetric] t2_def [symmetric]
      by (simp add: t2_def)
    with t12 show ?thesis by simp
  next
    case False
    show ?thesis
    proof (cases "build_message env r")
      case (Inl e)
      with False assms have "s' = s\<lparr>now := t2\<rparr>"
        unfolding dispatch_one_def Let_def t1_def [symmetric] over_def [symmetric]
          company_def [symmetric]
        by (auto simp: t2_def)
      with t12 show ?thesis by simp
    next
      case (Inr subject)
      obtain st sacts slept where att: "attempt_send env (r_email r) = (st, sacts, slept)"
        by (cases "attempt_send env (r_email r)")
      define t3 where "t3 = t2 + tick_send env + slept"
      from False Inr att assms
      have "ledger s' = mark_sent cal (ledger s) t3 (r_email r) (py_strip (py_str (r_person_id r)))
              company subject st \<and> now s' = t3 + SLEEP_BETWEEN_SENDS_SEC \<and> res = None"
        unfolding dispatch_one_def Let_def t1_def [symmetric] over_def [symmetric]
          company_def [symmetric]
        by (auto simp: t2_def t3_def)
      moreover have "if over then t1 + 86500 \<le> t3 else t1 \<le> t3"
        by (simp add: t3_def t2_def)
      ultimately show ?thesis
        unfolding over_def t1_def by (intro disjI2 exI [of _ t3]) auto
    qed
  qed
qed

lemma dispatch_one_quota:
  assumes sd: "short_days cal"
    and dates: "\<forall>e\<in>set (ledger s). send_date e \<le> today cal (now s)"
    and quota: "\<forall>d. sent_on (ledger s) d \<le> lim"
    and pos: "1 \<le> lim"
    and step: "dispatch_one cal lim env r s = (res, s', acts)"
  shows "(\<forall>e\<in>set (ledger s'). send_date e \<le> today cal (now s')) \<and> (\<forall>d. sent_on (ledger s') d \<le> lim)"
proof -
  from dispatch_one_cases [OF step] show ?thesis
  proof
    assume same: "ledger s' = ledger s \<and> now s \<le> now s'"
    then have "today cal (now s) \<le> today cal (now s')" by (simp add: today_mono [OF sd])
    with same dates quota show ?thesis by fastforce
  next
    assume "\<exists>t pid company subject st.
            ledger s' = mark_sent cal (ledger s) t (r_email r) pid company subject st \<and>
            t \<le> now s' \<and> res = None \<and>
            (if lim \<le> sent_count_today cal (ledger s) (now s + tick_quota env)
             then now s + tick_quota env + 86500 \<le> t
             else now s + tick_quota env \<le> t)"
    then obtain t pid company subject st where
      led: "ledger s' = mark_sent cal (ledger s) t (r_email r) pid company subject st"
      and t: "t \<le> now s'"
      and late: "if lim \<le> sent_count_today cal (ledger s) (now s + tick_quota env)
                 then now s + tick_quota env + 86500 \<le> t
                 else now s + tick_quota env \<le> t"
      by blast
    define t1 where "t1 = now s + tick_quota env"
    have t1: "today cal (now s) \<le> today cal t1" by (simp add: t1_def today_mono [OF sd])
    from late have t1t: "t1 \<le> t" by (auto simp: t1_def split: if_splits)
    have below: "sent_on (ledger s) (today cal t) < lim"
    proof (cases "today cal t1 < today cal t")
      case True
      with t1 dates have "\<forall>e\<in>set (ledger s). send_date e < today cal t" by fastforce
      then have "sent_on (ledger s) (today cal t) = 0" by (rule sent_on_later)
      with pos show ?thesis by simp
    next
      case False
      with t1t have same_day: "today cal t = today cal t1" using today_mono [OF sd, of t1 t] by simp
      have "\<not> lim \<le> sent_count_today cal (ledger s) t1"
      proof
        assume "lim \<le> sent_count_today cal (ledger s) t1"
        with late have "t1 + 86500 \<le> t" by (simp add: t1_def)
        then have "today cal t1 < today cal t" by (rule today_after_pause [OF sd])
        with False show False by simp
      qed
      with sent_on_le_count [of "ledger s" cal t1] same_day show ?thesis by simp
    qed
    have "sent_on (ledger s') d \<le> lim" for d
    proof (cases "d = today cal t")
      case True
      with sent_on_mark_sent_le [of cal "ledger s" t "r_email r" pid company subject st d] below led
      show ?thesis by simp
    next
      case False
      with quota led show ?thesis by (simp add: sent_on_mark_sent_other)
    qed
    moreover have "send_date e \<le> today cal (now s')" if e: "e \<in> set (ledger s')" for e
    proof -
      from e led have "e \<in> set (ledger s) \<or> send_date e = today cal t"
        by (auto dest: mark_sent_dates)
      moreover have "today cal (now s) \<le> today cal (now s')"
        using t1t t by (intro today_mono [OF sd]) (simp add: t1_def)
      moreover have "today cal t \<le> today cal (now s')" using t by (rule today_mono [OF sd])
      ultimately show ?thesis using dates by fastforce
    qed
    ultimately show ?thesis by blast
  qed
qed

lemma dispatch_loop_quota:
  "short_days cal \<Longrightarrow> dispatch_loop cal lim es i rows s = (res, s', acts) \<Longrightarrow>
   \<forall>e\<in>set (ledger s). send_date e \<le> today cal (now s) \<Longrightarrow>
   \<forall>d. sent_on (ledger s) d \<le> lim \<Longrightarrow> 1 \<le> lim \<Longrightarrow>
   (\<forall>e\<in>set (ledger s'). send_date e \<le> today cal (now s')) \<and> (\<forall>d. sent_on (ledger s') d \<le> lim)"
proof (induction rows arbitrary: i s res s' acts)
  case Nil
  then show ?case by simp
next
  case (Cons r rows)
  obtain res1 s1 acts1 where one: "dispatch_one cal lim (es i) r s = (res1, s1, acts1)"
    by (cases "dispatch_one cal lim (es i) r s")
  from dispatch_one_quota [OF Cons.prems(1) Cons.prems(3) Cons.prems(4) Cons.prems(5) one]
  have inv1: "\<forall>e\<in>set (ledger s1). send_date e \<le> today cal (now s1)"
    and inv2: "\<forall>d. sent_on (ledger s1) d \<le> lim" by blast+
  show ?case
  proof (cases res1)
    case (Some err)
    with one Cons.prems(2) have "s' = s1" by simp
    with inv1 inv2 show ?thesis by simp
  next
    case None
    obtain res2 s2 acts2 where rest: "dispatch_loop cal lim es (Suc i) rows s1 = (res2, s2, acts2)"
      by (cases "dispatch_loop cal lim es (Suc i) rows s1")
    with one None Cons.prems(2) have "s' = s2" by simp
    with Cons.IH [OF Cons.prems(1) rest inv1 inv2 Cons.prems(5)] show ?thesis by simp
  qed
qed

text \<open>
  What the two checks of the quota achieve on a calendar with \<open>short_days\<close>: of a ledger
  that holds no entry dated after today and in which no day has more \<open>sent\<close> entries than
  the daily quota, a run makes a ledger in which again no day has more \<open>sent\<close> entries
  than the quota, whatever the mail API answers and however long each step takes. And if
  today's \<open>sent\<close> entries have already reached the quota when the run starts, the run
  returns at once, on any calendar: no candidate is processed, nothing is posted or slept,
  the ledger and the clock are as before.
\<close>

lemma quota_respected_on_short_days:
  assumes "short_days (calendar run)"
    and "\<forall>e\<in>set (ledger s). send_date e \<le> today (calendar run) (now s)"
    and "\<forall>d. sent_on (ledger s) d \<le> daily_limit run"
    and "main_dispatch run s = (res, s', acts)"
  shows "\<forall>d. sent_on (ledger s') d \<le> daily_limit run"
proof (cases "daily_limit run \<le> sent_count_today (calendar run) (ledger s) (now s)")
  case True
  with assms(4) have "s' = s" by (simp add: main_dispatch_def)
  with assms(3) show ?thesis by simp
next
  case False
  have "0 \<le> sent_count_today (calendar run) (ledger s) (now s)"
    by (simp add: sent_count_today_def)
  with False have pos: "1 \<le> daily_limit run" by simp
  show ?thesis
  proof (cases "token_ok run")
    case False
    with \<open>\<not> daily_limit run \<le> sent_count_today (calendar run) (ledger s) (now s)\<close> assms(4)
    have "s' = s" by (simp add: main_dispatch_def Let_def)
    with assms(3) show ?thesis by simp
  next
    case True
    with \<open>\<not> daily_limit run \<le> sent_count_today (calendar run) (ledger s) (now s)\<close> assms(4)
    have "dispatch_loop (calendar run) (daily_limit run) (envs run) 0
            (ranked (sort_values run) (do_not_email run) (df run)) s = (res, s', acts)"
      by (simp add: main_dispatch_def Let_def)
    from dispatch_loop_quota [OF assms(1) this assms(2) assms(3) pos] show ?thesis by simp
  qed
qed

lemma quota_met_at_start_returns:
  assumes "daily_limit run \<le> sent_on (ledger s) (today (calendar run) (now s))"
  shows "main_dispatch run s = (None, s, [])"
proof -
  from assms sent_on_le_count [of "ledger s" "calendar run" "now s"]
  have "daily_limit run \<le> sent_count_today (calendar run) (ledger s) (now s)" by simp
  then show ?thesis by (simp add: main_dispatch_def)
qed

lemma two_rows_ranked:
  "ranked (sort_values (quota_run 1 two_rows)) (do_not_email (quota_run 1 two_rows))
     (df (quota_run 1 two_rows)) = map normalize_row two_rows"
  by code_simp

lemma quota_one_run:
  "main_dispatch (quota_run 1 two_rows) fresh_state =
     (None,
      \<lparr>ledger = [sent_entry 0 1003 ''a@x.io'' ''Acme'', sent_entry 1 87686 ''b@y.io'' ''Bolt''],
       now = 87866, sent_now = 2\<rparr>,
      [Post ''a@x.io'', Sleep 180, Sleep 86500, Post ''b@y.io'', Sleep 180])"
proof -
  have "daily_limit (quota_run 1 two_rows) = 1" "token_ok (quota_run 1 two_rows)"
    "envs (quota_run 1 two_rows) = (\<lambda>i. calm_env)"
    "calendar (quota_run 1 two_rows) = plain_days"
    by (simp_all add: quota_run_def)
  then show ?thesis
    unfolding main_dispatch_def two_rows_ranked Let_def
    by (simp add: dispatch_eval two_rows_def sent_entry_def)
qed

lemma quota_met_run:
  "main_dispatch (quota_run 5 two_rows) five_sent_state = (None, five_sent_state, [])"
  by (simp add: main_dispatch_def quota_run_def five_sent_state_def sent_count_today_def
      sent_entry_def today_def plain_days_def)

lemma autumn_rows_ranked:
  "ranked (sort_values autumn_run) (do_not_email autumn_run) (df autumn_run)
     = map normalize_row two_rows"
  by code_simp

lemma autumn_run_result:
  "main_dispatch autumn_run fresh_state =
     (None,
      \<lparr>ledger = [sent_entry 0 1003 ''a@x.io'' ''Acme'', sent_entry 0 87686 ''b@y.io'' ''Bolt''],
       now = 87866, sent_now = 2\<rparr>,
      [Post ''a@x.io'', Sleep 180, Sleep 86500, Post ''b@y.io'', Sleep 180])"
proof -
  have "daily_limit autumn_run = 1" "token_ok autumn_run" "envs autumn_run = (\<lambda>i. calm_env)"
    "calendar autumn_run = autumn_calendar"
    by (simp_all add: autumn_run_def quota_run_def)
  then show ?thesis
    unfolding main_dispatch_def autumn_rows_ranked Let_def
    by (simp add: dispatch_eval two_rows_def sent_entry_def autumn_calendar_def)
qed

text \<open>
  C3. The number of \<open>sent\<close> entries of a day can exceed the daily quota. When the check
  inside the loop finds the quota met, the loop sleeps 86500 seconds and then goes on
  with the same candidate, without looking at the date or the count again (the \<open>break\<close>
  after the sleep is commented out); the check before the loop returns instead. On the
  day the clocks are set back the local day has 90000 seconds, so after the sleep the
  date can still be the same. Here the quota is 1, the ledger is empty and the run starts
  1000 seconds after local midnight of such a day: the first row is sent to at second
  1003, the check of the second pass finds the quota met at second 1184, the loop sleeps
  until second 87684 of the same day and sends to the second row. The ledger ends with two
  \<open>sent\<close> entries of day 0.
\<close>

theorem quota_exceeded_on_long_day:
  "daily_limit autumn_run = 1 \<and>
   sent_on (ledger fresh_state) (today (calendar autumn_run) (now fresh_state)) = 0 \<and>
   main_dispatch autumn_run fresh_state =
     (None,
      \<lparr>ledger = [sent_entry 0 1003 ''a@x.io'' ''Acme'', sent_entry 0 87686 ''b@y.io'' ''Bolt''],
       now = 87866, sent_now = 2\<rparr>,
      [Post ''a@x.io'', Sleep 180, Sleep 86500, Post ''b@y.io'', Sleep 180]) \<and>
   sent_on (ledger (fst (snd (main_dispatch autumn_run fresh_state)))) 0 = 2"
proof -
  have "daily_limit autumn_run = 1" by (simp add: autumn_run_def quota_run_def)
  moreover have "sent_on (ledger fresh_state) (today (calendar autumn_run) (now fresh_state)) = 0"
    by (simp add: fresh_state_def sent_on_def)
  moreover have "sent_on (ledger (fst (snd (main_dispatch autumn_run fresh_state)))) 0 = 2"
    by (simp add: autumn_run_result sent_on_def sent_entry_def)
  ultimately show ?thesis using autumn_run_result by simp
qed

subsection \<open>C1: the cap per company and day\<close>


lemma acme_rows_ranked:
  "ranked (sort_values (quota_run 50 acme_rows)) (do_not_email (quota_run 50 acme_rows))
     (df (quota_run 50 acme_rows)) = rev (map normalize_row acme_rows)"
  by code_simp

lemma acme_run:
  "main_dispatch (quota_run 50 acme_rows) fresh_state =
     (None,
      \<lparr>ledger = [sent_entry 0 1003 ''a3@acme.io'' ''Acme'', sent_entry 0 1186 ''a2@acme.io'' ''Acme'',
                 sent_entry 0 1369 ''a1@acme.io'' ''Acme''],
       now = 1549, sent_now = 3\<rparr>,
      [Post ''a3@acme.io'', Sleep 180, Post ''a2@acme.io'', Sleep 180, Post ''a1@acme.io'', Sleep 180])"
proof -
  have "daily_limit (quota_run 50 acme_rows) = 50" "token_ok (quota_run 50 acme_rows)"
    "envs (quota_run 50 acme_rows) = (\<lambda>i. calm_env)"
    "calendar (quota_run 50 acme_rows) = plain_days"
    by (simp_all add: quota_run_def)
  then show ?thesis
    unfolding main_dispatch_def acme_rows_ranked Let_def
    by (simp add: dispatch_eval acme_rows_def sent_entry_def)
qed

text \<open>
  C1. The number of successful sends logged for a company on a day never exceeds the cap
  of 2, and a candidate whose employer has reached the cap is skipped. The code does not
  do this: the check of line 295 calls \<open>customer_count_today\<close>, which counts the entries
  whose \<open>email\<close> column equals the company name. With three leads of Acme and an empty
  ledger, all three are sent to and logged as \<open>sent\<close> on the same day; before the third
  send two entries of Acme are in the ledger, \<open>company_count_today\<close> is 2 and
  \<open>customer_count_today\<close> is 0.
\<close>

theorem company_cap_not_enforced:
  "main_dispatch (quota_run 50 acme_rows) fresh_state =
     (None,
      \<lparr>ledger = [sent_entry 0 1003 ''a3@acme.io'' ''Acme'', sent_entry 0 1186 ''a2@acme.io'' ''Acme'',
                 sent_entry 0 1369 ''a1@acme.io'' ''Acme''],
       now = 1549, sent_now = 3\<rparr>,
      [Post ''a3@acme.io'', Sleep 180, Post ''a2@acme.io'', Sleep 180, Post ''a1@acme.io'', Sleep 180]) \<and>
   MAX_PER_COMPANY_PER_DAY = 2 \<and>
   company_count_today plain_days
     [sent_entry 0 1003 ''a3@acme.io'' ''Acme'', sent_entry 0 1186 ''a2@acme.io'' ''Acme''] 1367 ''Acme'' = 2 \<and>
   customer_count_today plain_days
     [sent_entry 0 1003 ''a3@acme.io'' ''Acme'', sent_entry 0 1186 ''a2@acme.io'' ''Acme''] 1367 ''Acme'' = 0 \<and>
   company_count_today plain_days
     [sent_entry 0 1003 ''a3@acme.io'' ''Acme'', sent_entry 0 1186 ''a2@acme.io'' ''Acme'',
      sent_entry 0 1369 ''a1@acme.io'' ''Acme''] 1549 ''Acme'' = 3"
  by (simp add: acme_run MAX_PER_COMPANY_PER_DAY_def company_count_today_def
      customer_count_today_def sent_entry_def today_def plain_days_def)

subsection \<open>C6: throttling\<close>








end
